theory Spec2Isabelle
  imports Main
begin

section \<open>Values, errors and strings\<close>

text \<open>
  The adapter is TypeScript. Values that cross an untyped boundary (parsed response
  bodies, request payloads, the argument of \<open>requireParam\<close>) are modelled by \<open>json\<close>,
  which also has JavaScript's \<open>undefined\<close>. Numbers are the integers: pull request,
  thread and iteration ids are integers, and the tool's schema (\<open>z.number().int()\<close>)
  admits nothing else. Strings are lists of 8-bit characters, read as code units
  below 256.
\<close>

datatype json =
    JUndefined
  | JNull
  | JBool bool
  | JNum int
  | JStr string
  | JArr "json list"
  | JObj "(string \<times> json) list"

text \<open>
  Everything the code can throw. \<open>Error m\<close> is \<open>new Error(m)\<close>; \<open>TypeError\<close> is the
  runtime's error for a property read on \<open>undefined\<close> or \<open>null\<close>; \<open>SyntaxError\<close> is what
  \<open>response.json()\<close> throws on a body that is not JSON; \<open>NetworkError\<close> is a rejected
  \<open>fetch\<close>; \<open>ExecError\<close> is a failed \<open>git\<close> child process. \<open>IllTyped\<close> marks a value
  that the declared TypeScript types exclude (the casts in the source are unchecked);
  the model stops there instead of following JavaScript's coercions.
\<close>

datatype error =
    Error string
  | TypeError
  | SyntaxError
  | NetworkError string
  | ExecError string
  | IllTyped

subsection \<open>Numbers in template literals\<close>

definition digit_char :: "nat \<Rightarrow> char" where
  "digit_char d = ''0123456789'' ! (d mod 10)"

fun showNat :: "nat \<Rightarrow> string" where
  "showNat n = (if n < 10 then [digit_char n] else showNat (n div 10) @ [digit_char (n mod 10)])"

declare showNat.simps [simp del]

text \<open>
  \<open>${n}\<close> for an integer \<open>n\<close>, in decimal. The code's numbers are doubles: the model
  agrees with it on the integers of magnitude below \<open>2^53\<close>.
\<close>

definition showInt :: "int \<Rightarrow> string" where
  "showInt i = (if i < 0 then ''-'' @ showNat (nat (- i)) else showNat (nat i))"

subsection \<open>Case folding and character classes of the regular expressions\<close>

text \<open>
  The patterns carry the \<open>i\<close> flag and contain ASCII only, so a pattern character
  matches an input character when both have the same ASCII upper case.
\<close>

definition upper :: "char \<Rightarrow> char" where
  "upper c =
     (case map_of (zip ''abcdefghijklmnopqrstuvwxyz'' ''ABCDEFGHIJKLMNOPQRSTUVWXYZ'') c of
        Some u \<Rightarrow> u
      | None \<Rightarrow> c)"

text \<open>\<open>.\<close> matches every character but a line terminator.\<close>

definition is_line_terminator :: "char \<Rightarrow> bool" where
  "is_line_terminator c = (c = CHR 0x0A \<or> c = CHR 0x0D)"

text \<open>The class \<open>[\w.-]\<close>.\<close>

definition is_word_dot_dash :: "char \<Rightarrow> bool" where
  "is_word_dot_dash c =
     (c \<in> set ''abcdefghijklmnopqrstuvwxyzABCDEFGHIJKLMNOPQRSTUVWXYZ0123456789_.-'')"

fun ci_prefix :: "string \<Rightarrow> string \<Rightarrow> bool" where
  "ci_prefix [] s = True"
| "ci_prefix (p # ps) [] = False"
| "ci_prefix (p # ps) (c # cs) = (upper p = upper c \<and> ci_prefix ps cs)"

section \<open>Remote Resolver: \<open>parseAzureRemote\<close>\<close>

text \<open>
  The four regular expressions use five constructs only. A pattern is the list of its
  items, in the order of the source text:
  \<^item> \<open>Lit l\<close>: the literal characters \<open>l\<close>, compared case-insensitively;
  \<^item> \<open>LazyGroup\<close>: the capturing group \<open>(.+?)\<close>;
  \<^item> \<open>WordPlus\<close>: \<open>[\w.-]+\<close>, greedy;
  \<^item> \<open>OptLit l\<close>: \<open>(?:l)?\<close>, greedy;
  \<^item> \<open>EndAnchor\<close>: \<open>$\<close> (no \<open>m\<close> flag: the end of the input).
\<close>

datatype rx = Lit string | LazyGroup | WordPlus | OptLit string | EndAnchor

text \<open>
  Backtracking as the language defines it, in continuation-passing style: \<open>k\<close> is the
  rest of the pattern. A lazy quantifier tries the shortest extent first, a greedy one
  the longest.
\<close>

fun lazy_dot_plus :: "(string \<Rightarrow> string \<Rightarrow> 'a option) \<Rightarrow> string \<Rightarrow> string \<Rightarrow> 'a option" where
  "lazy_dot_plus k acc [] = None"
| "lazy_dot_plus k acc (c # s) =
     (if is_line_terminator c then None
      else (case k (acc @ [c]) s of
              Some r \<Rightarrow> Some r
            | None \<Rightarrow> lazy_dot_plus k (acc @ [c]) s))"

fun greedy_class_plus :: "(string \<Rightarrow> 'a option) \<Rightarrow> string \<Rightarrow> 'a option" where
  "greedy_class_plus k [] = None"
| "greedy_class_plus k (c # s) =
     (if \<not> is_word_dot_dash c then None
      else (case greedy_class_plus k s of
              Some r \<Rightarrow> Some r
            | None \<Rightarrow> k s))"

text \<open>
  \<open>match_here p s caps\<close>: the pattern \<open>p\<close> matched at the start of \<open>s\<close>, with the
  captures made so far; the result is the list of captures of the first successful
  alternative.
\<close>

primrec match_here :: "rx list \<Rightarrow> string \<Rightarrow> string list \<Rightarrow> string list option" where
  "match_here [] = (\<lambda>s caps. Some caps)"
| "match_here (x # p) = (\<lambda>s caps.
     (case x of
        Lit l \<Rightarrow> if ci_prefix l s then match_here p (drop (length l) s) caps else None
      | LazyGroup \<Rightarrow> lazy_dot_plus (\<lambda>g rest. match_here p rest (caps @ [g])) [] s
      | WordPlus \<Rightarrow> greedy_class_plus (\<lambda>rest. match_here p rest caps) s
      | OptLit l \<Rightarrow>
          (case (if ci_prefix l s then match_here p (drop (length l) s) caps else None) of
             Some r \<Rightarrow> Some r
           | None \<Rightarrow> match_here p s caps)
      | EndAnchor \<Rightarrow> if s = [] then match_here p s caps else None))"

text \<open>
  \<open>remoteUrl.match(pattern)\<close> without the \<open>g\<close> flag: the patterns have no \<open>^\<close>, so
  the match may start at any index, the leftmost first.
\<close>

fun match :: "rx list \<Rightarrow> string \<Rightarrow> string list option" where
  "match p [] = match_here p [] []"
| "match p (c # s) =
     (case match_here p (c # s) [] of
        Some caps \<Rightarrow> Some caps
      | None \<Rightarrow> match p s)"

record AzureDevOpsRepositoryInfo =
  organization :: string
  project :: string
  repository :: string

definition httpsPattern :: "rx list" where
  "httpsPattern =
     [Lit ''https://dev.azure.com/'', LazyGroup, Lit ''/'', LazyGroup, Lit ''/_git/'',
      LazyGroup, OptLit ''.git'', EndAnchor]"

definition httpsWithUserPattern :: "rx list" where
  "httpsWithUserPattern =
     [Lit ''https://'', WordPlus, Lit ''@dev.azure.com/'', LazyGroup, Lit ''/'', LazyGroup,
      Lit ''/_git/'', LazyGroup, OptLit ''.git'', EndAnchor]"

definition sshPattern :: "rx list" where
  "sshPattern =
     [Lit ''git@ssh.dev.azure.com:v3/'', LazyGroup, Lit ''/'', LazyGroup, Lit ''/'',
      LazyGroup, OptLit ''.git'', EndAnchor]"

definition legacyVisualStudioPattern :: "rx list" where
  "legacyVisualStudioPattern =
     [Lit ''https://'', LazyGroup, Lit ''.visualstudio.com/'', LazyGroup, Lit ''/_git/'',
      LazyGroup, OptLit ''.git'', EndAnchor]"

text \<open>\<open>const [, organization, project, repository] = match\<close>.\<close>

definition info_of_captures :: "string list \<Rightarrow> AzureDevOpsRepositoryInfo option" where
  "info_of_captures caps =
     (case caps of
        [org, proj, repo] \<Rightarrow>
          Some \<lparr>organization = org, project = proj, repository = repo\<rparr>
      | _ \<Rightarrow> None)"

text \<open>The loop over \<open>candidates\<close>: the first pattern that matches decides.\<close>

fun first_candidate :: "rx list list \<Rightarrow> string \<Rightarrow> AzureDevOpsRepositoryInfo option" where
  "first_candidate [] remoteUrl = None"
| "first_candidate (pattern # rest) remoteUrl =
     (case match pattern remoteUrl of
        Some caps \<Rightarrow> info_of_captures caps
      | None \<Rightarrow> first_candidate rest remoteUrl)"

definition parseAzureRemote :: "string \<Rightarrow> AzureDevOpsRepositoryInfo option" where
  "parseAzureRemote remoteUrl =
     (case first_candidate [httpsPattern, httpsWithUserPattern, sshPattern] remoteUrl of
        Some info \<Rightarrow> Some info
      | None \<Rightarrow>
          (case match legacyVisualStudioPattern remoteUrl of
             Some caps \<Rightarrow> info_of_captures caps
           | None \<Rightarrow> None))"

section \<open>Review Client: \<open>AzureDevOpsService\<close>\<close>

subsection \<open>Encodings used for the base URL and the credentials\<close>

definition hex_char :: "nat \<Rightarrow> char" where
  "hex_char d = ''0123456789ABCDEF'' ! (d mod 16)"

definition percent_byte :: "nat \<Rightarrow> string" where
  "percent_byte b = [CHR ''%'', hex_char (b div 16), hex_char (b mod 16)]"

text \<open>The UTF-8 bytes of one code unit below 256 (what \<open>Buffer.from\<close> and \<open>encodeURIComponent\<close> use).\<close>

definition utf8_bytes :: "char \<Rightarrow> nat list" where
  "utf8_bytes c =
     (let n = (of_char c :: nat)
      in if n < 128 then [n] else [192 + n div 64, 128 + n mod 64])"

definition is_uri_unreserved :: "char \<Rightarrow> bool" where
  "is_uri_unreserved c =
     (c \<in> set (''abcdefghijklmnopqrstuvwxyzABCDEFGHIJKLMNOPQRSTUVWXYZ0123456789'' @ ''-_.!~*()'' @ [CHR 0x27]))"

definition encodeURIComponent :: "string \<Rightarrow> string" where
  "encodeURIComponent s =
     concat (map (\<lambda>c. if is_uri_unreserved c then [c] else concat (map percent_byte (utf8_bytes c))) s)"

definition base64_char :: "nat \<Rightarrow> char" where
  "base64_char d =
     ''ABCDEFGHIJKLMNOPQRSTUVWXYZabcdefghijklmnopqrstuvwxyz0123456789+/'' ! (d mod 64)"

fun base64_bytes :: "nat list \<Rightarrow> string" where
  "base64_bytes [] = []"
| "base64_bytes [a] =
     [base64_char (a div 4), base64_char ((a mod 4) * 16), CHR ''='', CHR ''='']"
| "base64_bytes [a, b] =
     [base64_char (a div 4), base64_char ((a mod 4) * 16 + b div 16),
      base64_char ((b mod 16) * 4), CHR ''='']"
| "base64_bytes (a # b # c # rest) =
     [base64_char (a div 4), base64_char ((a mod 4) * 16 + b div 16),
      base64_char ((b mod 16) * 4 + c div 64), base64_char (c mod 64)] @ base64_bytes rest"

text \<open>\<open>Buffer.from(s).toString("base64")\<close>.\<close>

definition base64 :: "string \<Rightarrow> string" where
  "base64 s = base64_bytes (concat (map utf8_bytes s))"

text \<open>\<open>String.prototype.trim\<close> on code units below 256: white space and line terminators.\<close>

definition is_js_space :: "char \<Rightarrow> bool" where
  "is_js_space c =
     (c \<in> {CHR 0x09, CHR 0x0A, CHR 0x0B, CHR 0x0C, CHR 0x0D, CHR 0x20, CHR 0xA0})"

definition trim :: "string \<Rightarrow> string" where
  "trim s = rev (dropWhile is_js_space (rev (dropWhile is_js_space s)))"

subsection \<open>The HTTP transport and the process state\<close>

definition ADO_API_VERSION :: string where
  "ADO_API_VERSION = ''7.1-preview.1''"

text \<open>The second argument of \<open>request\<close> (\<open>RequestInit\<close>); \<open>{}\<close> is \<open>no_init\<close>.\<close>

record RequestInit =
  init_method :: "string option"
  init_headers :: "(string \<times> string) list"
  init_body :: "json option"

definition no_init :: RequestInit where
  "no_init = \<lparr>init_method = None, init_headers = [], init_body = None\<rparr>"

text \<open>
  One call of \<open>fetch\<close>. The URL fetched is \<open>new URL(path, baseApiUrl)\<close>, given the
  \<open>api-version\<close> query parameter when it has none; the call records the two strings
  that determine it. A body is the value handed to \<open>JSON.stringify\<close>.
\<close>

record fetch_call =
  call_path :: string
  call_base :: string
  call_method :: "string option"
  call_headers :: "(string \<times> string) list"
  call_body :: "json option"

text \<open>
  A \<open>Response\<close>: \<open>resp_text\<close> is what \<open>response.text()\<close> resolves to and
  \<open>resp_json\<close> what \<open>response.json()\<close> does (\<open>None\<close>: the body does not parse).
\<close>

record response =
  resp_status :: nat
  resp_statusText :: string
  resp_text :: string
  resp_json :: "json option"

definition ok :: "response \<Rightarrow> bool" where
  "ok r = (200 \<le> resp_status r \<and> resp_status r \<le> 299)"

record AzureDevOpsService =
  pat :: string
  repoInfo :: AzureDevOpsRepositoryInfo
  baseApiUrl :: string
  authHeader :: string
  repositoryId :: "string option"

text \<open>
  The process: its environment (the token variable, what \<open>git remote get-url origin\<close>
  prints or how it fails, the server behind \<open>fetch\<close>, which may answer differently
  depending on the calls made before) and what the code changes (the static field
  \<open>serviceInstance\<close>, the calls of \<open>fetch\<close> so far, the number of \<open>git\<close> child
  processes started). \<open>serviceInstance\<close> holds a promise; the model stores what the
  promise settles to. The one service object is shared by reference, so a method that
  changes it is followed by a write to \<open>serviceInstance\<close>.
\<close>

record world =
  env_ADO_PAT :: "string option"
  git_remote_stdout :: "error + string"
  transport :: "fetch_call list \<Rightarrow> fetch_call \<Rightarrow> error + response"
  serviceInstance :: "(error + AzureDevOpsService) option"
  fetch_log :: "fetch_call list"
  exec_count :: nat

definition set_header :: "string \<Rightarrow> string \<Rightarrow> (string \<times> string) list \<Rightarrow> (string \<times> string) list" where
  "set_header name v hs = filter (\<lambda>h. fst h \<noteq> name) hs @ [(name, v)]"

definition fetch :: "fetch_call \<Rightarrow> world \<Rightarrow> (error + response) \<times> world" where
  "fetch call w = (transport w (fetch_log w) call, w\<lparr>fetch_log := fetch_log w @ [call]\<rparr>)"

text \<open>The arguments \<open>request\<close> hands to \<open>fetch\<close>: \<open>{...init, headers}\<close> with the two headers set.\<close>

definition fetch_arguments :: "AzureDevOpsService \<Rightarrow> string \<Rightarrow> RequestInit \<Rightarrow> fetch_call" where
  "fetch_arguments svc path init =
     \<lparr>call_path = path,
      call_base = baseApiUrl svc,
      call_method = init_method init,
      call_headers =
        set_header ''Accept'' (''application/json;api-version='' @ ADO_API_VERSION)
          (set_header ''Authorization'' (authHeader svc) (init_headers init)),
      call_body = init_body init\<rparr>"

definition request :: "AzureDevOpsService \<Rightarrow> string \<Rightarrow> RequestInit \<Rightarrow> world \<Rightarrow> (error + json) \<times> world" where
  "request svc path init w =
     (let (res, w') = fetch (fetch_arguments svc path init) w
      in (case res of
            Inl e \<Rightarrow> (Inl e, w')
          | Inr response \<Rightarrow>
              if \<not> ok response then
                (Inl (Error (''Azure DevOps request failed ('' @ showNat (resp_status response)
                        @ '' '' @ resp_statusText response @ ''): '' @ resp_text response)), w')
              else if resp_status response = 204 then (Inr JUndefined, w')
              else (case resp_json response of
                      None \<Rightarrow> (Inl SyntaxError, w')
                    | Some data \<Rightarrow> (Inr data, w'))))"

subsection \<open>Property reads on parsed bodies\<close>

text \<open>\<open>x.value\<close>: a \<open>TypeError\<close> on \<open>undefined\<close> and \<open>null\<close>, \<open>undefined\<close> where the property is missing.\<close>

definition get_value :: "json \<Rightarrow> error + json" where
  "get_value j =
     (case j of
        JUndefined \<Rightarrow> Inl TypeError
      | JNull \<Rightarrow> Inl TypeError
      | JObj kvs \<Rightarrow> Inr (case map_of kvs ''value'' of Some v \<Rightarrow> v | None \<Rightarrow> JUndefined)
      | _ \<Rightarrow> Inr JUndefined)"

text \<open>\<open>repository?.["id"]\<close>.\<close>

definition opt_id :: "json \<Rightarrow> json" where
  "opt_id j =
     (case j of
        JObj kvs \<Rightarrow> (case map_of kvs ''id'' of Some v \<Rightarrow> v | None \<Rightarrow> JUndefined)
      | _ \<Rightarrow> JUndefined)"

text \<open>
  The ids of a list of \<open>AzureDevOpsIteration\<close> objects (\<open>{id: number, ...}\<close>);
  \<open>None\<close> when an element is not such an object.
\<close>

fun iteration_ids :: "json list \<Rightarrow> int list option" where
  "iteration_ids [] = Some []"
| "iteration_ids (j # js) =
     (case opt_id j of
        JNum n \<Rightarrow> (case iteration_ids js of Some ns \<Rightarrow> Some (n # ns) | None \<Rightarrow> None)
      | _ \<Rightarrow> None)"

subsection \<open>Construction and repository metadata\<close>

definition new_AzureDevOpsService :: "AzureDevOpsRepositoryInfo \<Rightarrow> string \<Rightarrow> AzureDevOpsService" where
  "new_AzureDevOpsService info p =
     \<lparr>pat = p,
      repoInfo = info,
      baseApiUrl = ''https://dev.azure.com/'' @ encodeURIComponent (organization info) @ ''/''
                     @ encodeURIComponent (project info) @ ''/_apis/git/'',
      authHeader = ''Basic '' @ base64 ('':'' @ p),
      repositoryId = None\<rparr>"

text \<open>\<open>${this.repositoryId}\<close>.\<close>

definition repositoryId_text :: "AzureDevOpsService \<Rightarrow> string" where
  "repositoryId_text svc = (case repositoryId svc of None \<Rightarrow> ''null'' | Some s \<Rightarrow> s)"

definition ensureRepositoryMetadata ::
    "AzureDevOpsService \<Rightarrow> world \<Rightarrow> (error + unit) \<times> AzureDevOpsService \<times> world" where
  "ensureRepositoryMetadata svc w =
     (if repositoryId svc \<noteq> None \<and> repositoryId svc \<noteq> Some [] then (Inr (), svc, w)
      else
        (let (res, w') =
               request svc (''repositories/'' @ encodeURIComponent (repository (repoInfo svc))) no_init w
         in (case res of
               Inl e \<Rightarrow> (Inl e, svc, w')
             | Inr repo \<Rightarrow>
                 (case opt_id repo of
                    JStr rid \<Rightarrow>
                      if rid = [] then
                        (Inl (Error ''Unable to fetch Azure DevOps repository metadata''), svc, w')
                      else (Inr (), svc\<lparr>repositoryId := Some rid\<rparr>, w')
                  | _ \<Rightarrow> (Inl (Error ''Unable to fetch Azure DevOps repository metadata''), svc, w')))))"

subsection \<open>The operations\<close>

text \<open>
  Every public method starts with \<open>await this.ensureRepositoryMetadata()\<close>;
  \<open>after_metadata\<close> is that first line followed by the rest of the method.
\<close>

definition after_metadata ::
    "AzureDevOpsService \<Rightarrow> world \<Rightarrow> (AzureDevOpsService \<Rightarrow> world \<Rightarrow> (error + json) \<times> world)
       \<Rightarrow> (error + json) \<times> AzureDevOpsService \<times> world" where
  "after_metadata svc w rest =
     (case ensureRepositoryMetadata svc w of
        (Inl e, svc', w') \<Rightarrow> (Inl e, svc', w')
      | (Inr _, svc', w') \<Rightarrow> (let (r, w'') = rest svc' w' in (r, svc', w'')))"

text \<open>\<open>const result = await this.request(url, init); return result.value\<close>.\<close>

definition request_value :: "AzureDevOpsService \<Rightarrow> string \<Rightarrow> RequestInit \<Rightarrow> world \<Rightarrow> (error + json) \<times> world" where
  "request_value svc url init w =
     (case request svc url init w of
        (Inl e, w') \<Rightarrow> (Inl e, w')
      | (Inr result, w') \<Rightarrow> (get_value result, w'))"

definition listPullRequests ::
    "AzureDevOpsService \<Rightarrow> string \<Rightarrow> world \<Rightarrow> (error + json) \<times> AzureDevOpsService \<times> world" where
  "listPullRequests svc status w =
     after_metadata svc w (\<lambda>this.
       request_value this
         (''repositories/'' @ repositoryId_text this @ ''/pullRequests?searchCriteria.status='' @ status)
         no_init)"

definition getPullRequest ::
    "AzureDevOpsService \<Rightarrow> int \<Rightarrow> world \<Rightarrow> (error + json) \<times> AzureDevOpsService \<times> world" where
  "getPullRequest svc pullRequestId w =
     after_metadata svc w (\<lambda>this.
       request this
         (''repositories/'' @ repositoryId_text this @ ''/pullRequests/'' @ showInt pullRequestId)
         no_init)"

definition getPullRequestThreads ::
    "AzureDevOpsService \<Rightarrow> int \<Rightarrow> world \<Rightarrow> (error + json) \<times> AzureDevOpsService \<times> world" where
  "getPullRequestThreads svc pullRequestId w =
     after_metadata svc w (\<lambda>this.
       request_value this
         (''repositories/'' @ repositoryId_text this @ ''/pullRequests/'' @ showInt pullRequestId
            @ ''/threads'')
         no_init)"

text \<open>
  \<open>getLatestIterationId\<close>: \<open>null\<close> (\<open>None\<close>) for an empty list; otherwise the list is
  copied, sorted by \<open>a.id - b.id\<close> and the id of the last element returned. Only the
  ids are read, so the model sorts the ids.
\<close>

definition getLatestIterationId ::
    "AzureDevOpsService \<Rightarrow> int \<Rightarrow> world \<Rightarrow> (error + int option) \<times> world" where
  "getLatestIterationId svc pullRequestId w =
     (case request svc
             (''repositories/'' @ repositoryId_text svc @ ''/pullRequests/'' @ showInt pullRequestId
                @ ''/iterations'')
             no_init w of
        (Inl e, w') \<Rightarrow> (Inl e, w')
      | (Inr iterations, w') \<Rightarrow>
          (case get_value iterations of
             Inl e \<Rightarrow> (Inl e, w')
           | Inr JUndefined \<Rightarrow> (Inl TypeError, w')
           | Inr JNull \<Rightarrow> (Inl TypeError, w')
           | Inr (JArr items) \<Rightarrow>
               if length items = 0 then (Inr None, w')
               else (case iteration_ids items of
                       None \<Rightarrow> (Inl IllTyped, w')
                     | Some ids \<Rightarrow>
                         (let sorted = sort ids
                          in (Inr (if sorted = [] then None else Some (last sorted)), w')))
           | Inr _ \<Rightarrow> (Inl IllTyped, w')))"

definition getPullRequestDiff ::
    "AzureDevOpsService \<Rightarrow> int \<Rightarrow> world \<Rightarrow> (error + json) \<times> AzureDevOpsService \<times> world" where
  "getPullRequestDiff svc pullRequestId w =
     after_metadata svc w (\<lambda>this w1.
       (case getLatestIterationId this pullRequestId w1 of
          (Inl e, w2) \<Rightarrow> (Inl e, w2)
        | (Inr None, w2) \<Rightarrow> (Inr (JArr []), w2)
        | (Inr (Some latestIteration), w2) \<Rightarrow>
            request_value this
              (''repositories/'' @ repositoryId_text this @ ''/pullRequests/'' @ showInt pullRequestId
                 @ ''/iterations/'' @ showInt latestIteration @ ''/changes'')
              no_init w2))"

record PostCommentOptions =
  pc_content :: string
  pc_threadContext :: "json option"

record ReplyCommentOptions =
  rc_content :: string
  rc_commentType :: "string option"

text \<open>An optional property of a payload: \<open>undefined\<close> when absent.\<close>

definition or_undefined :: "json option \<Rightarrow> json" where
  "or_undefined v = (case v of None \<Rightarrow> JUndefined | Some j \<Rightarrow> j)"

definition json_init :: "string \<Rightarrow> json \<Rightarrow> RequestInit" where
  "json_init m payload =
     \<lparr>init_method = Some m,
      init_headers = [(''Content-Type'', ''application/json'')],
      init_body = Some payload\<rparr>"

definition postComment ::
    "AzureDevOpsService \<Rightarrow> int \<Rightarrow> PostCommentOptions \<Rightarrow> world
       \<Rightarrow> (error + json) \<times> AzureDevOpsService \<times> world" where
  "postComment svc pullRequestId options w =
     after_metadata svc w (\<lambda>this.
       request this
         (''repositories/'' @ repositoryId_text this @ ''/pullRequests/'' @ showInt pullRequestId
            @ ''/threads'')
         (json_init ''POST''
            (JObj [(''status'', JStr ''active''),
                   (''threadContext'', or_undefined (pc_threadContext options)),
                   (''comments'',
                    JArr [JObj [(''parentCommentId'', JNum 0),
                                (''content'', JStr (pc_content options)),
                                (''commentType'', JStr ''text'')]])])))"

definition replyToThread ::
    "AzureDevOpsService \<Rightarrow> int \<Rightarrow> int \<Rightarrow> ReplyCommentOptions \<Rightarrow> world
       \<Rightarrow> (error + json) \<times> AzureDevOpsService \<times> world" where
  "replyToThread svc pullRequestId threadId options w =
     after_metadata svc w (\<lambda>this.
       request this
         (''repositories/'' @ repositoryId_text this @ ''/pullRequests/'' @ showInt pullRequestId
            @ ''/threads/'' @ showInt threadId @ ''/comments'')
         (json_init ''POST''
            (JObj [(''parentCommentId'', JNum 0),
                   (''content'', JStr (rc_content options)),
                   (''commentType'',
                    JStr (case rc_commentType options of None \<Rightarrow> ''text'' | Some t \<Rightarrow> t))])))"

definition updateThreadStatus ::
    "AzureDevOpsService \<Rightarrow> int \<Rightarrow> int \<Rightarrow> string \<Rightarrow> world
       \<Rightarrow> (error + json) \<times> AzureDevOpsService \<times> world" where
  "updateThreadStatus svc pullRequestId threadId status w =
     after_metadata svc w (\<lambda>this.
       request this
         (''repositories/'' @ repositoryId_text this @ ''/pullRequests/'' @ showInt pullRequestId
            @ ''/threads/'' @ showInt threadId)
         (json_init ''PATCH'' (JObj [(''status'', JStr status)])))"

subsection \<open>Initialization\<close>

definition getGitRemoteUrl :: "world \<Rightarrow> (error + string) \<times> world" where
  "getGitRemoteUrl w =
     ((case git_remote_stdout w of Inl e \<Rightarrow> Inl e | Inr stdout \<Rightarrow> Inr (trim stdout)),
      w\<lparr>exec_count := exec_count w + 1\<rparr>)"

definition initialize :: "world \<Rightarrow> (error + AzureDevOpsService) \<times> world" where
  "initialize w =
     (case map_option trim (env_ADO_PAT w) of
        None \<Rightarrow> (Inl (Error ''ADO_PAT environment variable is not set''), w)
      | Some p \<Rightarrow>
          if p = [] then (Inl (Error ''ADO_PAT environment variable is not set''), w)
          else
            (case getGitRemoteUrl w of
               (Inl e, w1) \<Rightarrow> (Inl e, w1)
             | (Inr remoteUrl, w1) \<Rightarrow>
                 (case parseAzureRemote remoteUrl of
                    None \<Rightarrow>
                      (Inl (Error (''Unable to determine Azure DevOps repository details from git remote: ''
                                     @ remoteUrl)), w1)
                  | Some info \<Rightarrow>
                      (case ensureRepositoryMetadata (new_AzureDevOpsService info p) w1 of
                         (Inl e, service, w2) \<Rightarrow> (Inl e, w2)
                       | (Inr _, service, w2) \<Rightarrow> (Inr service, w2)))))"

text \<open>
  \<open>getInstance\<close>: the promise of the first call is stored and returned by every
  later call, whether it resolved or rejected.
\<close>

definition getInstance :: "world \<Rightarrow> (error + AzureDevOpsService) \<times> world" where
  "getInstance w =
     (case serviceInstance w of
        Some p \<Rightarrow> (p, w)
      | None \<Rightarrow> (let (p, w') = initialize w in (p, w'\<lparr>serviceInstance := Some p\<rparr>)))"

section \<open>Action Dispatcher: the tool \<open>azure_devops_reviewer\<close>\<close>

datatype action =
    list_prs | get_pr | get_diff | get_comments | post_comment | reply_comment | resolve_thread

text \<open>The parameters the schema admits; an optional field that is absent is \<open>None\<close>.\<close>

record params =
  action :: action
  pullRequestId :: "int option"
  threadId :: "int option"
  content :: "string option"
  status :: "string option"
  threadContext :: "json option"

definition requireParam :: "json \<Rightarrow> string \<Rightarrow> error + json" where
  "requireParam v name =
     (if v = JUndefined \<or> v = JNull \<or> (case v of JStr s \<Rightarrow> length s = 0 | _ \<Rightarrow> False)
      then Inl (Error (''Missing required parameter: '' @ name))
      else Inr v)"

text \<open>The run-time values of the optional fields.\<close>

definition num_value :: "int option \<Rightarrow> json" where
  "num_value v = (case v of None \<Rightarrow> JUndefined | Some n \<Rightarrow> JNum n)"

definition str_value :: "string option \<Rightarrow> json" where
  "str_value v = (case v of None \<Rightarrow> JUndefined | Some s \<Rightarrow> JStr s)"

text \<open>
  A method called on the shared service object: what it changes of the object is seen
  through \<open>serviceInstance\<close> afterwards.
\<close>

definition on_service ::
    "((error + json) \<times> AzureDevOpsService \<times> world) \<Rightarrow> (error + json) \<times> world" where
  "on_service r =
     (case r of (res, svc', w') \<Rightarrow> (res, w'\<lparr>serviceInstance := Some (Inr svc')\<rparr>))"

text \<open>
  \<open>requireParam\<close> applied to a number field and to a string field; it returns its
  argument, so the third branch is never taken.
\<close>

definition requireNum :: "int option \<Rightarrow> string \<Rightarrow> error + int" where
  "requireNum v name =
     (case requireParam (num_value v) name of
        Inl e \<Rightarrow> Inl e
      | Inr (JNum n) \<Rightarrow> Inr n
      | Inr _ \<Rightarrow> Inl IllTyped)"

definition requireStr :: "string option \<Rightarrow> string \<Rightarrow> error + string" where
  "requireStr v name =
     (case requireParam (str_value v) name of
        Inl e \<Rightarrow> Inl e
      | Inr (JStr s) \<Rightarrow> Inr s
      | Inr _ \<Rightarrow> Inl IllTyped)"

definition execute :: "params \<Rightarrow> world \<Rightarrow> (error + json) \<times> world" where
  "execute ps w =
     (case getInstance w of
        (Inl e, w1) \<Rightarrow> (Inl e, w1)
      | (Inr service, w1) \<Rightarrow>
          (case action ps of
             list_prs \<Rightarrow> on_service (listPullRequests service ''active'' w1)
           | get_pr \<Rightarrow>
               (case requireNum (pullRequestId ps) ''pullRequestId'' of
                  Inl e \<Rightarrow> (Inl e, w1)
                | Inr prId \<Rightarrow> on_service (getPullRequest service prId w1))
           | get_diff \<Rightarrow>
               (case requireNum (pullRequestId ps) ''pullRequestId'' of
                  Inl e \<Rightarrow> (Inl e, w1)
                | Inr prId \<Rightarrow> on_service (getPullRequestDiff service prId w1))
           | get_comments \<Rightarrow>
               (case requireNum (pullRequestId ps) ''pullRequestId'' of
                  Inl e \<Rightarrow> (Inl e, w1)
                | Inr prId \<Rightarrow> on_service (getPullRequestThreads service prId w1))
           | post_comment \<Rightarrow>
               (case requireNum (pullRequestId ps) ''pullRequestId'' of
                  Inl e \<Rightarrow> (Inl e, w1)
                | Inr prId \<Rightarrow>
                    (case requireStr (content ps) ''content'' of
                       Inl e \<Rightarrow> (Inl e, w1)
                     | Inr c \<Rightarrow>
                         on_service
                           (postComment service prId
                              \<lparr>pc_content = c, pc_threadContext = threadContext ps\<rparr> w1)))
           | reply_comment \<Rightarrow>
               (case requireNum (pullRequestId ps) ''pullRequestId'' of
                  Inl e \<Rightarrow> (Inl e, w1)
                | Inr prId \<Rightarrow>
                    (case requireNum (threadId ps) ''threadId'' of
                       Inl e \<Rightarrow> (Inl e, w1)
                     | Inr tId \<Rightarrow>
                         (case requireStr (content ps) ''content'' of
                            Inl e \<Rightarrow> (Inl e, w1)
                          | Inr c \<Rightarrow>
                              on_service
                                (replyToThread service prId tId
                                   \<lparr>rc_content = c, rc_commentType = None\<rparr> w1))))
           | resolve_thread \<Rightarrow>
               (case requireNum (pullRequestId ps) ''pullRequestId'' of
                  Inl e \<Rightarrow> (Inl e, w1)
                | Inr prId \<Rightarrow>
                    (case requireNum (threadId ps) ''threadId'' of
                       Inl e \<Rightarrow> (Inl e, w1)
                     | Inr tId \<Rightarrow>
                         on_service
                           (updateThreadStatus service prId tId
                              (case status ps of None \<Rightarrow> ''closed'' | Some s \<Rightarrow> s) w1)))))"

section \<open>Sequences of calls\<close>

text \<open>\<open>getInstance\<close> called \<open>n\<close> times in a row: what each caller receives, and the process afterwards.\<close>

fun getInstance_calls :: "nat \<Rightarrow> world \<Rightarrow> (error + AzureDevOpsService) list \<times> world" where
  "getInstance_calls 0 w = ([], w)"
| "getInstance_calls (Suc n) w =
     (case getInstance w of
        (p, w1) \<Rightarrow> (case getInstance_calls n w1 of (ps, w2) \<Rightarrow> (p # ps, w2)))"

text \<open>Any sequence of calls a client of the module can make.\<close>

datatype client_call = GetInstance | Execute params

fun run_call :: "client_call \<Rightarrow> world \<Rightarrow> world" where
  "run_call GetInstance w = snd (getInstance w)"
| "run_call (Execute ps) w = snd (execute ps w)"

fun run_calls :: "client_call list \<Rightarrow> world \<Rightarrow> world" where
  "run_calls [] w = w"
| "run_calls (c # cs) w = run_calls cs (run_call c w)"

text \<open>
  A service whose repository id is known (\<open>ensureRepositoryMetadata\<close> returns at once),
  and a process whose \<open>serviceInstance\<close> promise has settled to a failure or to such a
  service.
\<close>

definition resolved :: "AzureDevOpsService \<Rightarrow> bool" where
  "resolved svc = (repositoryId svc \<noteq> None \<and> repositoryId svc \<noteq> Some [])"

definition settled :: "world \<Rightarrow> bool" where
  "settled w =
     (case serviceInstance w of
        None \<Rightarrow> False
      | Some (Inl e) \<Rightarrow> True
      | Some (Inr svc) \<Rightarrow> resolved svc)"

section \<open>Required parameters, as the tool surface lists them\<close>

text \<open>
  From the specification of the tool surface: \<open>pullRequestId\<close> is required for all
  actions but \<open>list_prs\<close>, \<open>threadId\<close> for reply and resolve, \<open>content\<close> for post and
  reply. A parameter is missing when its value is \<open>undefined\<close>, \<open>null\<close> or the empty
  string. \<open>missing_parameters\<close> lists the missing ones in the order of the table.
\<close>

definition required_parameters :: "action \<Rightarrow> string list" where
  "required_parameters a =
     (case a of
        list_prs \<Rightarrow> []
      | get_pr \<Rightarrow> [''pullRequestId'']
      | get_diff \<Rightarrow> [''pullRequestId'']
      | get_comments \<Rightarrow> [''pullRequestId'']
      | post_comment \<Rightarrow> [''pullRequestId'', ''content'']
      | reply_comment \<Rightarrow> [''pullRequestId'', ''threadId'', ''content'']
      | resolve_thread \<Rightarrow> [''pullRequestId'', ''threadId''])"

definition parameter_value :: "params \<Rightarrow> string \<Rightarrow> json" where
  "parameter_value ps name =
     (if name = ''pullRequestId'' then num_value (pullRequestId ps)
      else if name = ''threadId'' then num_value (threadId ps)
      else if name = ''content'' then str_value (content ps)
      else if name = ''status'' then str_value (status ps)
      else JUndefined)"

definition is_missing :: "json \<Rightarrow> bool" where
  "is_missing v = (v = JUndefined \<or> v = JNull \<or> v = JStr [])"

definition missing_parameters :: "params \<Rightarrow> string list" where
  "missing_parameters ps =
     filter (\<lambda>name. is_missing (parameter_value ps name)) (required_parameters (action ps))"

section \<open>The shapes of a remote URL\<close>

text \<open>
  The specification names four shapes: hosted HTTPS (\<open>https://dev.azure.com/org/project/_git/repo\<close>),
  HTTPS with an embedded user name, SSH (\<open>git@ssh.dev.azure.com:v3/org/project/repo\<close>) and
  the legacy subdomain (\<open>https://org.visualstudio.com/project/_git/repo\<close>), each with or
  without a trailing \<open>.git\<close>. Organization, project and repository are segments: not
  empty, without \<open>/\<close> and without line terminators. A user name is not empty and made
  of the characters of \<open>[\w.-]\<close>. A URL is without the suffix when the repository name
  does not itself end in \<open>.git\<close> (in any letter case) after at least one character.
\<close>

definition url_segment :: "string \<Rightarrow> bool" where
  "url_segment s = (s \<noteq> [] \<and> list_all (\<lambda>c. c \<noteq> CHR ''/'' \<and> \<not> is_line_terminator c) s)"

definition url_username :: "string \<Rightarrow> bool" where
  "url_username s = (s \<noteq> [] \<and> list_all is_word_dot_dash s)"

definition ends_in_dot_git :: "string \<Rightarrow> bool" where
  "ends_in_dot_git r = (4 < length r \<and> ci_prefix ''.git'' (drop (length r - 4) r))"

text \<open>
  What follows the repository name: the suffix \<open>.git\<close> in any letter case, or nothing
  (and then the name does not itself end in \<open>.git\<close>).
\<close>

definition git_suffix :: "string \<Rightarrow> string \<Rightarrow> bool" where
  "git_suffix repo suf =
     ((length suf = 4 \<and> ci_prefix ''.git'' suf) \<or> (suf = [] \<and> \<not> ends_in_dot_git repo))"

text \<open>A string that is, as a whole, a remote URL of one of the four shapes.\<close>

definition supported_shape :: "string \<Rightarrow> bool" where
  "supported_shape s =
     (\<exists>org proj repo user suf.
        url_segment org \<and> url_segment proj \<and> url_segment repo \<and> url_username user
        \<and> git_suffix repo suf
        \<and> (s = ''https://dev.azure.com/'' @ org @ ''/'' @ proj @ ''/_git/'' @ repo @ suf
           \<or> s = ''https://'' @ user @ ''@dev.azure.com/'' @ org @ ''/'' @ proj @ ''/_git/'' @ repo @ suf
           \<or> s = ''git@ssh.dev.azure.com:v3/'' @ org @ ''/'' @ proj @ ''/'' @ repo @ suf
           \<or> s = ''https://'' @ org @ ''.visualstudio.com/'' @ proj @ ''/_git/'' @ repo @ suf))"

text \<open>\<open>ci_occurs l s\<close>: the characters \<open>l\<close> occur somewhere in \<open>s\<close>, letter case ignored.\<close>

fun ci_occurs :: "string \<Rightarrow> string \<Rightarrow> bool" where
  "ci_occurs l [] = ci_prefix l []"
| "ci_occurs l (c # s) = (ci_prefix l (c # s) \<or> ci_occurs l s)"

text \<open>
  Two measures of a string used to tell where a literal of a pattern can occur: the
  number of its slashes, and the number of characters before its first slash;
  \<open>lit_slashes\<close> is the number of slashes in the literals of a pattern.
\<close>

definition slashes :: "string \<Rightarrow> nat" where
  "slashes s = length (filter (\<lambda>c. c = CHR ''/'') s)"

definition lead :: "string \<Rightarrow> nat" where
  "lead s = length (takeWhile (\<lambda>c. c \<noteq> CHR ''/'') s)"

definition lit_slashes :: "rx list \<Rightarrow> nat" where
  "lit_slashes p = sum_list (map (\<lambda>x. case x of Lit l \<Rightarrow> slashes l | _ \<Rightarrow> 0) p)"

section \<open>An example process\<close>

text \<open>
  A working copy of \<open>https://dev.azure.com/org/proj/_git/repo\<close> with the token \<open>tok\<close>,
  against a server that knows the repository, pull request 7 with the iterations 3, 1
  and 5 (listed in that order), pull request 8 with no iteration, answers every
  \<open>PATCH\<close> with 204 and everything else with 404. \<open>fresh_world\<close> is the process before
  the first call, \<open>ready_world\<close> after initialization.
\<close>

definition example_service :: AzureDevOpsService where
  "example_service =
     (new_AzureDevOpsService \<lparr>organization = ''org'', project = ''proj'', repository = ''repo''\<rparr> ''tok'')
       \<lparr>repositoryId := Some ''rid''\<rparr>"

definition json_response :: "json \<Rightarrow> response" where
  "json_response j = \<lparr>resp_status = 200, resp_statusText = ''OK'', resp_text = [], resp_json = Some j\<rparr>"

definition example_server :: "fetch_call list \<Rightarrow> fetch_call \<Rightarrow> error + response" where
  "example_server log c =
     (if call_path c = ''repositories/repo'' then
        Inr (json_response (JObj [(''id'', JStr ''rid'')]))
      else if call_path c = ''repositories/rid/pullRequests/7/iterations'' then
        Inr (json_response (JObj [(''value'', JArr [JObj [(''id'', JNum 3)], JObj [(''id'', JNum 1)], JObj [(''id'', JNum 5)]])]))
      else if call_path c = ''repositories/rid/pullRequests/7/iterations/5/changes'' then
        Inr (json_response (JObj [(''value'', JArr [JObj [(''changeType'', JStr ''edit'')]])]))
      else if call_path c = ''repositories/rid/pullRequests/8/iterations'' then
        Inr (json_response (JObj [(''value'', JArr [])]))
      else if call_method c = Some ''PATCH'' then
        Inr \<lparr>resp_status = 204, resp_statusText = ''No Content'', resp_text = [], resp_json = None\<rparr>
      else
        Inr \<lparr>resp_status = 404, resp_statusText = ''Not Found'', resp_text = ''no such item'', resp_json = None\<rparr>)"

definition fresh_world :: world where
  "fresh_world =
     \<lparr>env_ADO_PAT = Some ''tok'',
      git_remote_stdout = Inr ''https://dev.azure.com/org/proj/_git/repo'',
      transport = example_server,
      serviceInstance = None,
      fetch_log = [],
      exec_count = 0\<rparr>"

definition ready_world :: world where
  "ready_world = fresh_world\<lparr>serviceInstance := Some (Inr example_service), exec_count := 1\<rparr>"

definition example_params :: "action \<Rightarrow> params" where
  "example_params a =
     \<lparr>action = a, pullRequestId = Some 7, threadId = Some 2, content = None, status = None,
      threadContext = None\<rparr>"

definition iterations_3_1_5 :: "json list" where
  "iterations_3_1_5 = [JObj [(''id'', JNum 3)], JObj [(''id'', JNum 1)], JObj [(''id'', JNum 5)]]"

section \<open>Properties of \<open>request\<close> and of the repository metadata\<close>

lemma request_error_response:
  assumes "transport w (fetch_log w) (fetch_arguments svc path init) = Inr resp"
      and "\<not> ok resp"
  shows "request svc path init w =
           (Inl (Error (''Azure DevOps request failed ('' @ showNat (resp_status resp) @ '' ''
                          @ resp_statusText resp @ ''): '' @ resp_text resp)),
            w\<lparr>fetch_log := fetch_log w @ [fetch_arguments svc path init]\<rparr>)"
  using assms by (simp add: request_def fetch_def)

lemma request_no_content:
  assumes "transport w (fetch_log w) (fetch_arguments svc path init) = Inr resp"
      and "resp_status resp = 204"
  shows "request svc path init w =
           (Inr JUndefined, w\<lparr>fetch_log := fetch_log w @ [fetch_arguments svc path init]\<rparr>)"
  using assms by (simp add: request_def fetch_def ok_def)

lemma request_data:
  assumes "transport w (fetch_log w) (fetch_arguments svc path init) = Inr resp"
      and "ok resp" and "resp_status resp \<noteq> 204" and "resp_json resp = Some d"
  shows "request svc path init w =
           (Inr d, w\<lparr>fetch_log := fetch_log w @ [fetch_arguments svc path init]\<rparr>)"
  using assms by (simp add: request_def fetch_def)

lemma request_log:
  "fetch_log (snd (request svc path init w)) = fetch_log w @ [fetch_arguments svc path init]"
  by (simp add: request_def fetch_def split: sum.splits option.splits)

lemma ensure_known:
  assumes "repositoryId svc = Some rid" and "rid \<noteq> []"
  shows "ensureRepositoryMetadata svc w = (Inr (), svc, w)"
  using assms by (simp add: ensureRepositoryMetadata_def)

lemma after_metadata_known:
  assumes "repositoryId svc = Some rid" and "rid \<noteq> []"
  shows "after_metadata svc w rest = (fst (rest svc w), svc, snd (rest svc w))"
  using assms by (simp add: after_metadata_def ensure_known split: prod.splits)

lemma initialize_no_token:
  assumes "case env_ADO_PAT w of None \<Rightarrow> True | Some t \<Rightarrow> trim t = []"
  shows "initialize w = (Inl (Error ''ADO_PAT environment variable is not set''), w)"
  using assms by (simp add: initialize_def split: option.splits)

lemma request_frame:
  "exec_count (snd (request svc path init w)) = exec_count w"
  "serviceInstance (snd (request svc path init w)) = serviceInstance w"
  by (simp_all add: request_def fetch_def split: sum.splits option.splits)

lemma request_log_length:
  "length (fetch_log (snd (request svc path init w))) = Suc (length (fetch_log w))"
  by (simp add: request_log)

lemma ensure_result:
  assumes "ensureRepositoryMetadata svc w = (r, svc', w')"
  shows "exec_count w' = exec_count w"
    and "serviceInstance w' = serviceInstance w"
    and "length (fetch_log w') \<le> Suc (length (fetch_log w))"
    and "r = Inr u \<Longrightarrow> resolved svc'"
proof -
  obtain res w1 where q: "request svc (''repositories/'' @ encodeURIComponent (repository (repoInfo svc))) no_init w = (res, w1)"
    by (cases "request svc (''repositories/'' @ encodeURIComponent (repository (repoInfo svc))) no_init w")
  have f: "exec_count w1 = exec_count w" "serviceInstance w1 = serviceInstance w"
    "length (fetch_log w1) = Suc (length (fetch_log w))"
    using request_frame[of svc _ no_init w] request_log_length[of svc _ no_init w] q
    by (metis snd_conv)+
  show "exec_count w' = exec_count w"
    using assms q f
    by (auto simp: ensureRepositoryMetadata_def split: if_splits sum.splits json.splits)
  show "serviceInstance w' = serviceInstance w"
    using assms q f
    by (auto simp: ensureRepositoryMetadata_def split: if_splits sum.splits json.splits)
  show "length (fetch_log w') \<le> Suc (length (fetch_log w))"
    using assms q f
    by (auto simp: ensureRepositoryMetadata_def split: if_splits sum.splits json.splits)
  show "r = Inr u \<Longrightarrow> resolved svc'"
    using assms q
    by (auto simp: ensureRepositoryMetadata_def resolved_def split: if_splits sum.splits json.splits)
qed

lemma initialize_result:
  assumes "initialize w = (p, w')"
  shows "exec_count w' \<le> exec_count w + 1"
    and "length (fetch_log w') \<le> length (fetch_log w) + 1"
    and "serviceInstance w' = serviceInstance w"
    and "p = Inr svc \<Longrightarrow> resolved svc"
proof -
  have g: "exec_count (snd (getGitRemoteUrl w)) = exec_count w + 1"
    "fetch_log (snd (getGitRemoteUrl w)) = fetch_log w"
    "serviceInstance (snd (getGitRemoteUrl w)) = serviceInstance w"
    by (simp_all add: getGitRemoteUrl_def)
  show "exec_count w' \<le> exec_count w + 1"
    using assms g
    by (auto simp: initialize_def split: option.splits if_splits sum.splits prod.splits
          dest: ensure_result(1))
  show "length (fetch_log w') \<le> length (fetch_log w) + 1"
    using assms g
    by (auto simp: initialize_def split: option.splits if_splits sum.splits prod.splits
          dest: ensure_result(3))
  show "serviceInstance w' = serviceInstance w"
    using assms g
    by (auto simp: initialize_def split: option.splits if_splits sum.splits prod.splits
          dest: ensure_result(2))
  show "p = Inr svc \<Longrightarrow> resolved svc"
    using assms
    by (auto simp: initialize_def split: option.splits if_splits sum.splits prod.splits
          dest: ensure_result(4))
qed

lemma after_metadata_resolved:
  assumes "resolved svc"
  shows "after_metadata svc w rest = (fst (rest svc w), svc, snd (rest svc w))"
  using assms
  by (simp add: after_metadata_def ensureRepositoryMetadata_def resolved_def split: prod.splits)

lemma request_value_frame:
  "exec_count (snd (request_value svc path init w)) = exec_count w"
  using request_frame(1)[of svc path init w]
  by (cases "request svc path init w") (auto simp: request_value_def split: sum.splits)

lemma getLatestIterationId_frame:
  "exec_count (snd (getLatestIterationId svc prId w)) = exec_count w"
proof -
  let ?p = "''repositories/'' @ repositoryId_text svc @ ''/pullRequests/'' @ showInt prId @ ''/iterations''"
  obtain r w' where q: "request svc ?p no_init w = (r, w')" by (cases "request svc ?p no_init w")
  then have "exec_count w' = exec_count w" using request_frame(1)[of svc ?p no_init w] by simp
  then show ?thesis using q
    by (auto simp: getLatestIterationId_def Let_def split: sum.splits json.splits option.splits if_splits)
qed

section \<open>The latest iteration\<close>

lemma last_sorted_Max:
  fixes xs :: "int list"
  assumes "sorted xs" and "xs \<noteq> []"
  shows "last xs = Max (set xs)"
  using assms
proof (induction xs)
  case Nil
  then show ?case by simp
next
  case (Cons x xs)
  show ?case
  proof (cases "xs = []")
    case True
    then show ?thesis by simp
  next
    case False
    have "\<forall>y\<in>set xs. x \<le> y" using Cons.prems by simp
    then have "x \<le> Max (set xs)" using False by (meson List.finite_set Max_in set_empty)
    moreover have "last xs = Max (set xs)" using Cons False by simp
    ultimately show ?thesis using False by (simp add: max_def)
  qed
qed

lemma last_sort_Max:
  fixes ids :: "int list"
  assumes "ids \<noteq> []"
  shows "sort ids \<noteq> [] \<and> last (sort ids) = Max (set ids)"
proof -
  have ne: "sort ids \<noteq> []" using assms by (metis length_sort length_0_conv)
  have "last (sort ids) = Max (set (sort ids))" using ne by (intro last_sorted_Max) simp_all
  then show ?thesis using ne by simp
qed

lemma getLatestIterationId_max:
  assumes "transport w (fetch_log w) (fetch_arguments svc (''repositories/'' @ repositoryId_text svc @ ''/pullRequests/'' @ showInt pr @ ''/iterations'') no_init) = Inr resp"
      and "ok resp" and "resp_status resp \<noteq> 204" and "resp_json resp = Some body"
      and "get_value body = Inr (JArr items)" and "items \<noteq> []" and "iteration_ids items = Some ids"
  shows "getLatestIterationId svc pr w =
           (Inr (Some (Max (set ids))),
            w\<lparr>fetch_log := fetch_log w @ [fetch_arguments svc (''repositories/'' @ repositoryId_text svc @ ''/pullRequests/'' @ showInt pr @ ''/iterations'') no_init]\<rparr>)"
proof -
  have "ids \<noteq> []" using assms(6,7) by (cases items) (auto split: json.splits option.splits)
  then have s: "sort ids \<noteq> []" "last (sort ids) = Max (set ids)" using last_sort_Max by blast+
  show ?thesis
    unfolding getLatestIterationId_def
    using assms s by (simp add: request_data)
qed

lemma getLatestIterationId_empty:
  assumes "transport w (fetch_log w) (fetch_arguments svc (''repositories/'' @ repositoryId_text svc @ ''/pullRequests/'' @ showInt pr @ ''/iterations'') no_init) = Inr resp"
      and "ok resp" and "resp_status resp \<noteq> 204" and "resp_json resp = Some body"
      and "get_value body = Inr (JArr [])"
  shows "getLatestIterationId svc pr w =
           (Inr None,
            w\<lparr>fetch_log := fetch_log w @ [fetch_arguments svc (''repositories/'' @ repositoryId_text svc @ ''/pullRequests/'' @ showInt pr @ ''/iterations'') no_init]\<rparr>)"
  unfolding getLatestIterationId_def
  using assms by (simp add: request_data)

section \<open>Memoized initialization\<close>

lemma getInstance_memo: "serviceInstance w = Some p \<Longrightarrow> getInstance w = (p, w)"
  by (simp add: getInstance_def)

lemma getInstance_stores:
  "serviceInstance (snd (getInstance w)) = Some (fst (getInstance w))"
  by (simp add: getInstance_def split: option.splits prod.splits)

lemma getInstance_calls_memo:
  assumes "serviceInstance w = Some p"
  shows "getInstance_calls n w = (replicate n p, w)"
  using assms by (induction n) (simp_all add: getInstance_memo)

lemma getInstance_cost:
  "exec_count (snd (getInstance w)) \<le> exec_count w + 1"
  "length (fetch_log (snd (getInstance w))) \<le> length (fetch_log w) + 1"
proof -
  obtain p w' where i: "initialize w = (p, w')" by (cases "initialize w")
  show "exec_count (snd (getInstance w)) \<le> exec_count w + 1"
    using i initialize_result(1)[OF i] by (simp add: getInstance_def split: option.splits)
  show "length (fetch_log (snd (getInstance w))) \<le> length (fetch_log w) + 1"
    using i initialize_result(2)[OF i] by (simp add: getInstance_def split: option.splits)
qed

lemma on_service_resolved:
  assumes "resolved svc"
  shows "serviceInstance (snd (on_service (after_metadata svc w rest))) = Some (Inr svc)"
    and "exec_count (snd (on_service (after_metadata svc w rest))) = exec_count (snd (rest svc w))"
  using assms by (simp_all add: after_metadata_resolved on_service_def)

lemma diff_rest_frame:
  "exec_count (snd (case getLatestIterationId this prId w1 of
          (Inl e, w2) \<Rightarrow> (Inl e, w2)
        | (Inr None, w2) \<Rightarrow> (Inr (JArr []), w2)
        | (Inr (Some latestIteration), w2) \<Rightarrow> request_value this (f latestIteration) no_init w2)) = exec_count w1"
proof -
  obtain r w2 where q: "getLatestIterationId this prId w1 = (r, w2)"
    by (cases "getLatestIterationId this prId w1")
  then have "exec_count w2 = exec_count w1" using getLatestIterationId_frame[of this prId w1] by simp
  then show ?thesis using q by (simp add: request_value_frame split: sum.splits option.splits)
qed

lemma execute_settled:
  assumes "settled w"
  shows "serviceInstance (snd (execute ps w)) = serviceInstance w"
    and "exec_count (snd (execute ps w)) = exec_count w"
proof -
  obtain p where m: "serviceInstance w = Some p" using assms by (auto simp: settled_def split: option.splits)
  have g: "getInstance w = (p, w)" using m by (rule getInstance_memo)
  show "serviceInstance (snd (execute ps w)) = serviceInstance w"
  proof (cases p)
    case (Inl e)
    then show ?thesis using g by (simp add: execute_def)
  next
    case (Inr svc)
    then have r: "resolved svc" using assms m by (simp add: settled_def)
    show ?thesis using g Inr m
      by (simp add: execute_def listPullRequests_def getPullRequest_def getPullRequestDiff_def
            getPullRequestThreads_def postComment_def replyToThread_def updateThreadStatus_def
            on_service_resolved(1)[OF r] split: action.splits sum.splits)
  qed
  show "exec_count (snd (execute ps w)) = exec_count w"
  proof (cases p)
    case (Inl e)
    then show ?thesis using g by (simp add: execute_def)
  next
    case (Inr svc)
    then have r: "resolved svc" using assms m by (simp add: settled_def)
    show ?thesis using g Inr m
      by (simp add: execute_def listPullRequests_def getPullRequest_def getPullRequestDiff_def
            getPullRequestThreads_def postComment_def replyToThread_def updateThreadStatus_def
            on_service_resolved(2)[OF r] request_frame request_value_frame diff_rest_frame
            split: action.splits sum.splits)
  qed
qed

lemma run_call_settled:
  assumes "settled w"
  shows "serviceInstance (run_call c w) = serviceInstance w"
    and "exec_count (run_call c w) = exec_count w"
proof -
  obtain p where m: "serviceInstance w = Some p" using assms by (auto simp: settled_def split: option.splits)
  show "serviceInstance (run_call c w) = serviceInstance w"
    using assms m by (cases c) (simp_all add: getInstance_memo execute_settled)
  show "exec_count (run_call c w) = exec_count w"
    using assms m by (cases c) (simp_all add: getInstance_memo execute_settled)
qed

lemma run_calls_settled:
  assumes "settled w"
  shows "serviceInstance (run_calls cs w) = serviceInstance w \<and> exec_count (run_calls cs w) = exec_count w"
  using assms
proof (induction cs arbitrary: w)
  case Nil
  then show ?case by simp
next
  case (Cons c cs)
  have s: "settled (run_call c w)"
    using Cons.prems run_call_settled(1)[OF Cons.prems, of c] by (simp add: settled_def)
  show ?case using Cons.IH[OF s] run_call_settled[OF Cons.prems, of c] by simp
qed

lemma getInstance_settles:
  assumes "serviceInstance w = None"
  shows "settled (snd (getInstance w))"
proof -
  obtain p w' where i: "initialize w = (p, w')" by (cases "initialize w")
  show ?thesis
    using assms i initialize_result(4)[OF i]
    by (cases p) (simp_all add: getInstance_def settled_def)
qed

section \<open>Parameter checks of the dispatcher\<close>

lemma requireNum_simps:
  "requireNum None name = Inl (Error (''Missing required parameter: '' @ name))"
  "requireNum (Some n) name = Inr n"
  by (simp_all add: requireNum_def requireParam_def num_value_def)

lemma requireStr_simps:
  "requireStr None name = Inl (Error (''Missing required parameter: '' @ name))"
  "requireStr (Some []) name = Inl (Error (''Missing required parameter: '' @ name))"
  "s \<noteq> [] \<Longrightarrow> requireStr (Some s) name = Inr s"
  by (simp_all add: requireStr_def requireParam_def str_value_def)

lemma is_missing_values:
  "is_missing (num_value v) = (v = None)"
  "is_missing (str_value s) = (s = None \<or> s = Some [])"
  by (auto simp: is_missing_def num_value_def str_value_def split: option.splits)

section \<open>Properties of the matcher\<close>

lemma upper_slash: "(upper c = CHR ''/'') = (c = CHR ''/'')"
  by (auto simp: upper_def split: if_splits)

lemma upper_slash': "(CHR ''/'' = upper c) = (c = CHR ''/'')"
  using upper_slash[of c] by auto

lemma upper_of_slash: "upper CHR ''/'' = CHR ''/''"
  by (simp add: upper_def)

lemma upper_idem: "upper (upper c) = upper c"
  by (auto simp: upper_def split: if_splits)

lemma ci_prefix_self: "ci_prefix l (l @ s)"
  by (induction l) simp_all

lemma ci_prefix_length: "ci_prefix l s \<Longrightarrow> length l \<le> length s"
  by (induction l s rule: ci_prefix.induct) simp_all

lemma ci_prefix_slashes:
  "ci_prefix l s \<Longrightarrow> slashes (drop (length l) s) + slashes l = slashes s"
  by (induction l s rule: ci_prefix.induct)
     (auto simp: slashes_def upper_of_slash upper_slash upper_slash')

lemma ci_prefix_lead:
  "ci_prefix l s \<Longrightarrow> CHR ''/'' \<in> set l \<Longrightarrow> lead s = lead l"
  by (induction l s rule: ci_prefix.induct)
     (auto simp: lead_def upper_of_slash upper_slash upper_slash')

lemma lead_append: "CHR ''/'' \<notin> set x \<Longrightarrow> lead (x @ y) = length x + lead y"
  by (induction x) (auto simp: lead_def)

lemma ci_prefix_drop:
  "ci_prefix l (x @ y) \<Longrightarrow> length x \<le> length l \<Longrightarrow> ci_prefix (drop (length x) l) y"
proof (induction l "x @ y" arbitrary: x y rule: ci_prefix.induct)
  case (1 s)
  then show ?case by simp
next
  case (2 p ps)
  then show ?case by simp
next
  case (3 p ps c cs)
  then show ?case by (cases x) auto
qed

lemma slashes_Cons: "slashes (c # s) = (if c = CHR ''/'' then Suc (slashes s) else slashes s)"
  by (simp add: slashes_def)

lemma slashes_Nil: "slashes [] = 0"
  by (simp add: slashes_def)

lemma slashes_append: "slashes (x @ y) = slashes x + slashes y"
  by (simp add: slashes_def)

lemma slashes_free: "CHR ''/'' \<notin> set x \<Longrightarrow> slashes x = 0"
  by (induction x) (auto simp: slashes_def)

lemma lazy_dot_plus_slashes:
  assumes "\<And>g rest. k g rest = Some r \<Longrightarrow> n \<le> slashes rest"
      and "lazy_dot_plus k acc s = Some r"
  shows "n \<le> slashes s"
  using assms(2)
proof (induction s arbitrary: acc)
  case Nil
  then show ?case by simp
next
  case (Cons c s)
  show ?case
  proof (cases "k (acc @ [c]) s")
    case None
    then have "lazy_dot_plus k (acc @ [c]) s = Some r"
      using Cons.prems by (simp split: if_splits)
    then have "n \<le> slashes s" by (rule Cons.IH)
    then show ?thesis by (simp add: slashes_Cons)
  next
    case (Some r')
    then have "r' = r" using Cons.prems by (simp split: if_splits)
    then have "n \<le> slashes s" using assms(1) Some by simp
    then show ?thesis by (simp add: slashes_Cons)
  qed
qed

lemma greedy_class_plus_slashes:
  assumes "\<And>rest. k rest = Some r \<Longrightarrow> n \<le> slashes rest"
      and "greedy_class_plus k s = Some r"
  shows "n \<le> slashes s"
  using assms(2)
proof (induction s)
  case Nil
  then show ?case by simp
next
  case (Cons c s)
  show ?case
  proof (cases "greedy_class_plus k s")
    case None
    then have "k s = Some r" using Cons.prems by (simp split: if_splits)
    then have "n \<le> slashes s" by (rule assms(1))
    then show ?thesis by (simp add: slashes_Cons)
  next
    case (Some r')
    then have "r' = r" using Cons.prems by (simp split: if_splits)
    then have "n \<le> slashes s" using Cons.IH Some by simp
    then show ?thesis by (simp add: slashes_Cons)
  qed
qed

lemma lit_slashes_Cons:
  "lit_slashes (x # p) = (case x of Lit l \<Rightarrow> slashes l | _ \<Rightarrow> 0) + lit_slashes p"
  by (simp add: lit_slashes_def)

lemma match_here_slashes:
  "match_here p s caps = Some r \<Longrightarrow> lit_slashes p \<le> slashes s"
proof (induction p arbitrary: s caps)
  case Nil
  then show ?case by (simp add: lit_slashes_def)
next
  case (Cons x p)
  show ?case
  proof (cases x)
    case (Lit l)
    then have c: "ci_prefix l s" and m: "match_here p (drop (length l) s) caps = Some r"
      using Cons.prems by (simp_all split: if_splits)
    have "lit_slashes p \<le> slashes (drop (length l) s)" using m by (rule Cons.IH)
    then show ?thesis using ci_prefix_slashes[OF c] Lit by (simp add: lit_slashes_Cons)
  next
    case LazyGroup
    then have "lazy_dot_plus (\<lambda>g rest. match_here p rest (caps @ [g])) [] s = Some r"
      using Cons.prems by simp
    then have "lit_slashes p \<le> slashes s"
      by (rule lazy_dot_plus_slashes[rotated]) (rule Cons.IH)
    then show ?thesis using LazyGroup by (simp add: lit_slashes_Cons)
  next
    case WordPlus
    then have "greedy_class_plus (\<lambda>rest. match_here p rest caps) s = Some r"
      using Cons.prems by simp
    then have "lit_slashes p \<le> slashes s"
      by (rule greedy_class_plus_slashes[rotated]) (rule Cons.IH)
    then show ?thesis using WordPlus by (simp add: lit_slashes_Cons)
  next
    case (OptLit l)
    show ?thesis
    proof (cases "ci_prefix l s \<and> match_here p (drop (length l) s) caps = Some r")
      case True
      then have "lit_slashes p \<le> slashes (drop (length l) s)" using Cons.IH by blast
      moreover have "slashes (drop (length l) s) \<le> slashes s"
        using ci_prefix_slashes[of l s] True by simp
      ultimately show ?thesis using OptLit by (simp add: lit_slashes_Cons)
    next
      case False
      then have "match_here p s caps = Some r"
        using Cons.prems OptLit by (auto split: if_splits option.splits)
      then show ?thesis using Cons.IH OptLit by (simp add: lit_slashes_Cons)
    qed
  next
    case EndAnchor
    then have "match_here p s caps = Some r" using Cons.prems by (simp split: if_splits)
    then show ?thesis using Cons.IH EndAnchor by (simp add: lit_slashes_Cons)
  qed
qed

lemma match_few_slashes:
  "slashes s < lit_slashes p \<Longrightarrow> match p s = None"
proof (induction s)
  case Nil
  then show ?case using match_here_slashes[of p "[]" "[]"] by (cases "match_here p [] []") auto
next
  case (Cons c s)
  have "match_here p (c # s) [] = None"
    using Cons.prems match_here_slashes[of p "c # s" "[]"] by (cases "match_here p (c # s) []") auto
  moreover have "match p s = None" using Cons by (simp add: slashes_Cons split: if_splits)
  ultimately show ?case by simp
qed

lemma match_skip:
  assumes "\<And>a b. x = a @ b \<Longrightarrow> b \<noteq> [] \<Longrightarrow> match_here p (b @ s) [] = None"
  shows "match p (x @ s) = match p s"
  using assms
proof (induction x)
  case Nil
  then show ?case by simp
next
  case (Cons c x)
  have "match_here p ((c # x) @ s) [] = None" using Cons.prems[of "[]" "c # x"] by simp
  moreover have "match p (x @ s) = match p s"
  proof (rule Cons.IH)
    fix a b assume "x = a @ b" "b \<noteq> []"
    then show "match_here p (b @ s) [] = None" using Cons.prems[of "c # a" b] by simp
  qed
  ultimately show ?case by simp
qed

lemma lazy_dot_plus_extent:
  assumes "g \<noteq> []" and "\<forall>c\<in>set g. \<not> is_line_terminator c"
      and "\<And>a b. g = a @ b \<Longrightarrow> a \<noteq> [] \<Longrightarrow> b \<noteq> [] \<Longrightarrow> k (acc @ a) (b @ rest) = None"
      and "k (acc @ g) rest = Some r"
  shows "lazy_dot_plus k acc (g @ rest) = Some r"
  using assms
proof (induction g arbitrary: acc)
  case Nil
  then show ?case by simp
next
  case (Cons c g)
  show ?case
  proof (cases "g = []")
    case True
    then show ?thesis using Cons.prems by simp
  next
    case False
    have n: "k (acc @ [c]) (g @ rest) = None" using Cons.prems(3)[of "[c]" g] False by simp
    have "lazy_dot_plus k (acc @ [c]) (g @ rest) = Some r"
    proof (rule Cons.IH[OF False])
      show "\<forall>c\<in>set g. \<not> is_line_terminator c" using Cons.prems(2) by simp
      show "k ((acc @ [c]) @ g) rest = Some r" using Cons.prems(4) by simp
      fix a b assume "g = a @ b" "a \<noteq> []" "b \<noteq> []"
      then show "k ((acc @ [c]) @ a) (b @ rest) = None" using Cons.prems(3)[of "c # a" b] by simp
    qed
    then show ?thesis using n Cons.prems(2) by simp
  qed
qed

lemma greedy_class_plus_extent:
  assumes "u \<noteq> []" and "\<forall>c\<in>set u. is_word_dot_dash c"
      and "rest = [] \<or> \<not> is_word_dot_dash (hd rest)"
      and "k rest = Some r"
  shows "greedy_class_plus k (u @ rest) = Some r"
  using assms
proof (induction u)
  case Nil
  then show ?case by simp
next
  case (Cons c u)
  have stop: "greedy_class_plus k rest = None" using Cons.prems(3) by (cases rest) auto
  show ?case
  proof (cases "u = []")
    case True
    then show ?thesis using Cons.prems stop by simp
  next
    case False
    then have "greedy_class_plus k (u @ rest) = Some r" using Cons by simp
    then show ?thesis using Cons.prems(2) by simp
  qed
qed

lemma upper_chars:
  "upper CHR ''h'' = CHR ''H''" "upper CHR ''t'' = CHR ''T''" "upper CHR ''p'' = CHR ''P''"
  "upper CHR ''s'' = CHR ''S''" "upper CHR '':'' = CHR '':''" "upper CHR ''/'' = CHR ''/''"
  "upper CHR ''d'' = CHR ''D''" "upper CHR ''e'' = CHR ''E''" "upper CHR ''v'' = CHR ''V''"
  "upper CHR ''.'' = CHR ''.''" "upper CHR ''a'' = CHR ''A''" "upper CHR ''z'' = CHR ''Z''"
  "upper CHR ''u'' = CHR ''U''" "upper CHR ''r'' = CHR ''R''" "upper CHR ''c'' = CHR ''C''"
  "upper CHR ''o'' = CHR ''O''" "upper CHR ''m'' = CHR ''M''" "upper CHR ''g'' = CHR ''G''"
  "upper CHR ''i'' = CHR ''I''" "upper CHR ''@'' = CHR ''@''" "upper CHR ''3'' = CHR ''3''"
  "upper CHR ''l'' = CHR ''L''" "upper CHR ''_'' = CHR ''_''"
  by (simp_all add: upper_def)

lemma segment_facts:
  assumes "url_segment g"
  shows "g \<noteq> []" and "\<forall>c\<in>set g. \<not> is_line_terminator c" and "CHR ''/'' \<notin> set g"
  using assms by (auto simp: url_segment_def list_all_iff)

lemma segment_suffix:
  assumes "url_segment g" and "g = a @ b" and "b \<noteq> []"
  shows "url_segment b"
  using assms by (auto simp: url_segment_def list_all_iff)

lemma match_here_Lit_self: "match_here (Lit l # p) (l @ s) caps = match_here p s caps"
  by (simp add: ci_prefix_self)

lemma match_at_start: "match_here p s [] = Some r \<Longrightarrow> match p s = Some r"
  by (cases s) simp_all

lemma tail_matches:
  "match_here [OptLit ''.git'', EndAnchor] [] caps = Some caps"
  "length suf = 4 \<Longrightarrow> ci_prefix ''.git'' suf \<Longrightarrow>
     match_here [OptLit ''.git'', EndAnchor] suf caps = Some caps"
  by simp_all

lemma tail_fails:
  assumes "s \<noteq> []" and "\<not> (length s = 4 \<and> ci_prefix ''.git'' s)"
  shows "match_here [OptLit ''.git'', EndAnchor] s caps = None"
proof (cases "ci_prefix ''.git'' s")
  case True
  then have "4 \<le> length s" using ci_prefix_length[of "''.git''" s] by simp
  then have "drop 4 s \<noteq> []" using assms(2) True by simp
  then show ?thesis using assms(1) True by simp
next
  case False
  then show ?thesis using assms(1) by simp
qed

lemma last_group:
  assumes "url_segment repo" and "git_suffix repo suf"
  shows "match_here [LazyGroup, OptLit ''.git'', EndAnchor] (repo @ suf) caps = Some (caps @ [repo])"
proof -
  let ?k = "\<lambda>g rest. match_here [OptLit ''.git'', EndAnchor] rest (caps @ [g])"
  have "lazy_dot_plus ?k [] (repo @ suf) = Some (caps @ [repo])"
  proof (rule lazy_dot_plus_extent)
    show "repo \<noteq> []" "\<forall>c\<in>set repo. \<not> is_line_terminator c"
      using segment_facts[OF assms(1)] by simp_all
    show "?k ([] @ repo) suf = Some (caps @ [repo])"
      using assms(2) tail_matches by (auto simp: git_suffix_def)
    fix a b assume ab: "repo = a @ b" "a \<noteq> []" "b \<noteq> []"
    have "\<not> (length (b @ suf) = 4 \<and> ci_prefix ''.git'' (b @ suf))"
    proof (cases "suf = []")
      case True
      then have "\<not> ends_in_dot_git repo" using assms(2) by (auto simp: git_suffix_def)
      then show ?thesis using ab True by (auto simp: ends_in_dot_git_def)
    next
      case False
      then have "length suf = 4" using assms(2) by (auto simp: git_suffix_def)
      then show ?thesis using ab by simp
    qed
    then show "?k ([] @ a) (b @ suf) = None" using ab(3) by (intro tail_fails) simp_all
  qed
  then show ?thesis by simp
qed

lemma group_before_slash:
  assumes "url_segment g"
      and "match_here (Lit (CHR ''/'' # l) # p) (CHR ''/'' # rest) (caps @ [g]) = Some r"
  shows "match_here (LazyGroup # Lit (CHR ''/'' # l) # p) (g @ CHR ''/'' # rest) caps = Some r"
proof -
  let ?k = "\<lambda>g rest. match_here (Lit (CHR ''/'' # l) # p) rest (caps @ [g])"
  have "lazy_dot_plus ?k [] (g @ CHR ''/'' # rest) = Some r"
  proof (rule lazy_dot_plus_extent)
    show "g \<noteq> []" "\<forall>c\<in>set g. \<not> is_line_terminator c"
      using segment_facts[OF assms(1)] by simp_all
    show "?k ([] @ g) (CHR ''/'' # rest) = Some r" using assms(2) by simp
    fix a b assume ab: "g = a @ b" "a \<noteq> []" "b \<noteq> []"
    then obtain c b' where b: "b = c # b'" by (cases b) auto
    then have "c \<noteq> CHR ''/''" using segment_facts(3)[OF assms(1)] ab(1) by auto
    then show "?k ([] @ a) (b @ CHR ''/'' # rest) = None"
      using b by (simp add: upper_of_slash upper_slash')
  qed
  then show ?thesis by simp
qed

lemma group_before_visualstudio:
  assumes "url_segment g"
      and "match_here (Lit ''.visualstudio.com/'' # p) (''.visualstudio.com/'' @ rest) (caps @ [g]) = Some r"
  shows "match_here (LazyGroup # Lit ''.visualstudio.com/'' # p) (g @ ''.visualstudio.com/'' @ rest) caps = Some r"
proof -
  let ?k = "\<lambda>g rest. match_here (Lit ''.visualstudio.com/'' # p) rest (caps @ [g])"
  have "lazy_dot_plus ?k [] (g @ ''.visualstudio.com/'' @ rest) = Some r"
  proof (rule lazy_dot_plus_extent)
    show "g \<noteq> []" "\<forall>c\<in>set g. \<not> is_line_terminator c"
      using segment_facts[OF assms(1)] by simp_all
    show "?k ([] @ g) (''.visualstudio.com/'' @ rest) = Some r" using assms(2) by simp
    fix a b assume ab: "g = a @ b" "a \<noteq> []" "b \<noteq> []"
    have nb: "CHR ''/'' \<notin> set b" using segment_facts(3)[OF assms(1)] ab(1) by auto
    have "\<not> ci_prefix ''.visualstudio.com/'' (b @ ''.visualstudio.com/'' @ rest)"
    proof
      assume "ci_prefix ''.visualstudio.com/'' (b @ ''.visualstudio.com/'' @ rest)"
      then have "lead (b @ ''.visualstudio.com/'' @ rest) = lead ''.visualstudio.com/''"
        by (rule ci_prefix_lead) simp
      then show False using ab(3) by (simp add: lead_append[OF nb]) (simp add: lead_def)
    qed
    then show "?k ([] @ a) (b @ ''.visualstudio.com/'' @ rest) = None" by simp
  qed
  then show ?thesis by simp
qed

lemma groups_after_literal:
  assumes "url_segment org" and "url_segment proj" and "url_segment repo"
      and "git_suffix repo suf"
  shows "match_here [LazyGroup, Lit ''/'', LazyGroup, Lit ''/_git/'', LazyGroup, OptLit ''.git'', EndAnchor]
           (org @ ''/'' @ proj @ ''/_git/'' @ repo @ suf) [] = Some [org, proj, repo]"
proof -
  have 3: "match_here [LazyGroup, OptLit ''.git'', EndAnchor] (repo @ suf) [org, proj] = Some [org, proj, repo]"
    using last_group[OF assms(3,4), of "[org, proj]"] by simp
  have "match_here (Lit ''/_git/'' # [LazyGroup, OptLit ''.git'', EndAnchor]) (''/_git/'' @ repo @ suf) ([org] @ [proj])
          = Some [org, proj, repo]"
    unfolding match_here_Lit_self using 3 by simp
  then have "match_here (LazyGroup # Lit ''/_git/'' # [LazyGroup, OptLit ''.git'', EndAnchor])
               (proj @ CHR ''/'' # ''_git/'' @ repo @ suf) [org] = Some [org, proj, repo]"
    by (intro group_before_slash[OF assms(2)]) simp
  then have "match_here (Lit ''/'' # LazyGroup # Lit ''/_git/'' # [LazyGroup, OptLit ''.git'', EndAnchor])
               (''/'' @ proj @ ''/_git/'' @ repo @ suf) ([] @ [org]) = Some [org, proj, repo]"
    unfolding match_here_Lit_self by simp
  then have "match_here (LazyGroup # Lit ''/'' # LazyGroup # Lit ''/_git/'' # [LazyGroup, OptLit ''.git'', EndAnchor])
               (org @ CHR ''/'' # proj @ ''/_git/'' @ repo @ suf) [] = Some [org, proj, repo]"
    by (intro group_before_slash[OF assms(1)]) simp
  then show ?thesis by simp
qed

lemma https_shape_matches:
  assumes "url_segment org" and "url_segment proj" and "url_segment repo"
      and "git_suffix repo suf"
  shows "match httpsPattern (''https://dev.azure.com/'' @ org @ ''/'' @ proj @ ''/_git/'' @ repo @ suf)
           = Some [org, proj, repo]"
proof -
  have "match_here httpsPattern (''https://dev.azure.com/'' @ org @ ''/'' @ proj @ ''/_git/'' @ repo @ suf) []
          = Some [org, proj, repo]"
    unfolding httpsPattern_def match_here_Lit_self by (rule groups_after_literal[OF assms])
  then show ?thesis by (rule match_at_start)
qed

lemma user_shape_matches:
  assumes "url_username user" and "url_segment org" and "url_segment proj" and "url_segment repo"
      and "git_suffix repo suf"
  shows "match httpsWithUserPattern
           (''https://'' @ user @ ''@dev.azure.com/'' @ org @ ''/'' @ proj @ ''/_git/'' @ repo @ suf)
           = Some [org, proj, repo]"
proof -
  let ?rest = "org @ ''/'' @ proj @ ''/_git/'' @ repo @ suf"
  let ?p = "[LazyGroup, Lit ''/'', LazyGroup, Lit ''/_git/'', LazyGroup, OptLit ''.git'', EndAnchor]"
  have k: "match_here (Lit ''@dev.azure.com/'' # ?p) (''@dev.azure.com/'' @ ?rest) [] = Some [org, proj, repo]"
    unfolding match_here_Lit_self by (rule groups_after_literal[OF assms(2-5)])
  have "greedy_class_plus (\<lambda>rest. match_here (Lit ''@dev.azure.com/'' # ?p) rest [])
          (user @ ''@dev.azure.com/'' @ ?rest) = Some [org, proj, repo]"
  proof (rule greedy_class_plus_extent)
    show "user \<noteq> []" "\<forall>c\<in>set user. is_word_dot_dash c"
      using assms(1) by (auto simp: url_username_def list_all_iff)
    show "''@dev.azure.com/'' @ ?rest = [] \<or> \<not> is_word_dot_dash (hd (''@dev.azure.com/'' @ ?rest))"
      by (simp add: is_word_dot_dash_def)
    show "match_here (Lit ''@dev.azure.com/'' # ?p) (''@dev.azure.com/'' @ ?rest) [] = Some [org, proj, repo]"
      by (rule k)
  qed
  then have "match_here (WordPlus # Lit ''@dev.azure.com/'' # ?p) (user @ ''@dev.azure.com/'' @ ?rest) []
               = Some [org, proj, repo]"
    by simp
  then have "match_here httpsWithUserPattern (''https://'' @ user @ ''@dev.azure.com/'' @ ?rest) []
          = Some [org, proj, repo]"
    unfolding httpsWithUserPattern_def match_here_Lit_self .
  then show ?thesis by (rule match_at_start)
qed

lemma ssh_shape_matches:
  assumes "url_segment org" and "url_segment proj" and "url_segment repo"
      and "git_suffix repo suf"
  shows "match sshPattern (''git@ssh.dev.azure.com:v3/'' @ org @ ''/'' @ proj @ ''/'' @ repo @ suf)
           = Some [org, proj, repo]"
proof -
  have 3: "match_here [LazyGroup, OptLit ''.git'', EndAnchor] (repo @ suf) [org, proj] = Some [org, proj, repo]"
    using last_group[OF assms(3,4), of "[org, proj]"] by simp
  have "match_here (Lit ''/'' # [LazyGroup, OptLit ''.git'', EndAnchor]) (''/'' @ repo @ suf) ([org] @ [proj])
          = Some [org, proj, repo]"
    unfolding match_here_Lit_self using 3 by simp
  then have "match_here (LazyGroup # Lit ''/'' # [LazyGroup, OptLit ''.git'', EndAnchor])
               (proj @ CHR ''/'' # repo @ suf) [org] = Some [org, proj, repo]"
    by (intro group_before_slash[OF assms(2)]) simp
  then have "match_here (Lit ''/'' # LazyGroup # Lit ''/'' # [LazyGroup, OptLit ''.git'', EndAnchor])
               (''/'' @ proj @ ''/'' @ repo @ suf) ([] @ [org]) = Some [org, proj, repo]"
    unfolding match_here_Lit_self by simp
  then have "match_here (LazyGroup # Lit ''/'' # LazyGroup # Lit ''/'' # [LazyGroup, OptLit ''.git'', EndAnchor])
               (org @ CHR ''/'' # proj @ ''/'' @ repo @ suf) [] = Some [org, proj, repo]"
    by (intro group_before_slash[OF assms(1)]) simp
  then have "match_here sshPattern (''git@ssh.dev.azure.com:v3/'' @ org @ ''/'' @ proj @ ''/'' @ repo @ suf) []
          = Some [org, proj, repo]"
    unfolding sshPattern_def match_here_Lit_self by simp
  then show ?thesis by (rule match_at_start)
qed

lemma legacy_shape_matches:
  assumes "url_segment org" and "url_segment proj" and "url_segment repo"
      and "git_suffix repo suf"
  shows "match legacyVisualStudioPattern
           (''https://'' @ org @ ''.visualstudio.com/'' @ proj @ ''/_git/'' @ repo @ suf)
           = Some [org, proj, repo]"
proof -
  have 3: "match_here [LazyGroup, OptLit ''.git'', EndAnchor] (repo @ suf) [org, proj] = Some [org, proj, repo]"
    using last_group[OF assms(3,4), of "[org, proj]"] by simp
  have "match_here (Lit ''/_git/'' # [LazyGroup, OptLit ''.git'', EndAnchor]) (''/_git/'' @ repo @ suf) ([org] @ [proj])
          = Some [org, proj, repo]"
    unfolding match_here_Lit_self using 3 by simp
  then have "match_here (LazyGroup # Lit ''/_git/'' # [LazyGroup, OptLit ''.git'', EndAnchor])
               (proj @ CHR ''/'' # ''_git/'' @ repo @ suf) [org] = Some [org, proj, repo]"
    by (intro group_before_slash[OF assms(2)]) simp
  then have "match_here (Lit ''.visualstudio.com/'' # LazyGroup # Lit ''/_git/'' # [LazyGroup, OptLit ''.git'', EndAnchor])
               (''.visualstudio.com/'' @ proj @ ''/_git/'' @ repo @ suf) ([] @ [org]) = Some [org, proj, repo]"
    unfolding match_here_Lit_self by simp
  then have "match_here (LazyGroup # Lit ''.visualstudio.com/'' # LazyGroup # Lit ''/_git/'' # [LazyGroup, OptLit ''.git'', EndAnchor])
               (org @ ''.visualstudio.com/'' @ proj @ ''/_git/'' @ repo @ suf) [] = Some [org, proj, repo]"
    by (rule group_before_visualstudio[OF assms(1)])
  then have "match_here legacyVisualStudioPattern
               (''https://'' @ org @ ''.visualstudio.com/'' @ proj @ ''/_git/'' @ repo @ suf) []
          = Some [org, proj, repo]"
    unfolding legacyVisualStudioPattern_def match_here_Lit_self .
  then show ?thesis by (rule match_at_start)
qed

lemma pattern_slashes:
  "lit_slashes httpsPattern = 6" "lit_slashes httpsWithUserPattern = 6"
  "lit_slashes sshPattern = 3" "lit_slashes legacyVisualStudioPattern = 5"
  by (simp_all add: lit_slashes_def slashes_def httpsPattern_def httpsWithUserPattern_def
        sshPattern_def legacyVisualStudioPattern_def)

lemma suffix_slashes:
  assumes "git_suffix repo suf"
  shows "slashes suf = 0"
proof (cases "suf = []")
  case True
  then show ?thesis by (simp add: slashes_def)
next
  case False
  then have "length suf = 4" and c: "ci_prefix ''.git'' suf"
    using assms by (auto simp: git_suffix_def)
  then have "slashes (drop (length ''.git'') suf) = 0" by (simp add: slashes_def)
  then show ?thesis using ci_prefix_slashes[OF c] by (simp add: slashes_def)
qed

lemma segment_slashes: "url_segment g \<Longrightarrow> slashes g = 0"
  by (simp add: slashes_free segment_facts(3))

lemma slash_not_word: "\<not> is_word_dot_dash CHR ''/''"
  by (simp add: is_word_dot_dash_def)

lemma username_slash_free: "url_username u \<Longrightarrow> CHR ''/'' \<notin> set u"
  using slash_not_word by (auto simp: url_username_def list_all_iff)

lemma username_slashes: "url_username u \<Longrightarrow> slashes u = 0"
  by (rule slashes_free) (rule username_slash_free)

lemma tail_slashes:
  assumes "url_segment proj" and "url_segment repo"
      and "git_suffix repo suf"
  shows "slashes (proj @ ''/_git/'' @ repo @ suf) = 2"
    and "slashes (proj @ ''/'' @ repo @ suf) = 1"
  using assms
  by (simp_all add: slashes_append segment_slashes suffix_slashes[OF assms(3)] slashes_Cons slashes_Nil)

lemma ci_prefix_common: "ci_prefix (x @ l) (x @ s) = ci_prefix l s"
  by (induction x) simp_all

lemma match_Lit_step:
  assumes "\<not> ci_prefix l (c # s)"
  shows "match (Lit l # p) (c # s) = match (Lit l # p) s"
  using assms by simp

lemma match_Lit_skip:
  assumes "\<forall>c\<in>set x. upper c \<noteq> upper a"
  shows "match (Lit (a # l) # p) (x @ s) = match (Lit (a # l) # p) s"
proof (rule match_skip)
  fix u b assume ub: "x = u @ b" "b \<noteq> []"
  then obtain c b' where b: "b = c # b'" by (cases b) auto
  then have "upper c \<noteq> upper a" using assms ub(1) by auto
  then show "match_here (Lit (a # l) # p) (b @ s) [] = None" using b by auto
qed

lemma user_shape_not_https:
  assumes "url_username user" and "url_segment org" and "url_segment proj" and "url_segment repo"
      and "git_suffix repo suf"
  shows "match httpsPattern
           (''https://'' @ user @ ''@dev.azure.com/'' @ org @ ''/'' @ proj @ ''/_git/'' @ repo @ suf) = None"
proof -
  let ?rest = "user @ ''@dev.azure.com/'' @ org @ ''/'' @ proj @ ''/_git/'' @ repo @ suf"
  have nu: "CHR ''/'' \<notin> set user"
    using assms(1) by (rule username_slash_free)
  have "\<not> ci_prefix ''dev.azure.com/'' ?rest"
  proof
    assume "ci_prefix ''dev.azure.com/'' ?rest"
    then have "lead ?rest = lead ''dev.azure.com/''" by (rule ci_prefix_lead) simp
    then show False by (simp add: lead_append[OF nu]) (simp add: lead_def)
  qed
  then have "\<not> ci_prefix (''https://'' @ ''dev.azure.com/'') (''https://'' @ ?rest)"
    unfolding ci_prefix_common .
  then have a: "\<not> ci_prefix ''https://dev.azure.com/'' (CHR ''h'' # ''ttps://'' @ ?rest)" by simp
  have "slashes ?rest = 4"
    using tail_slashes(1)[OF assms(3,4,5)]
    by (simp add: slashes_append username_slashes[OF assms(1)] segment_slashes[OF assms(2)]
          slashes_Cons slashes_Nil)
  then have b: "match httpsPattern ?rest = None"
    by (intro match_few_slashes) (simp add: pattern_slashes)
  have "match httpsPattern (CHR ''h'' # ''ttps://'' @ ?rest) = match httpsPattern (''ttps://'' @ ?rest)"
    unfolding httpsPattern_def using a by (rule match_Lit_step)
  also have "\<dots> = match httpsPattern ?rest"
    unfolding httpsPattern_def by (rule match_Lit_skip) (simp add: upper_chars)
  finally show ?thesis using b by simp
qed

lemma ssh_shape_not_https:
  assumes "url_segment org" and "url_segment proj" and "url_segment repo"
      and "git_suffix repo suf"
  shows "match httpsPattern (''git@ssh.dev.azure.com:v3/'' @ org @ ''/'' @ proj @ ''/'' @ repo @ suf) = None"
    and "match httpsWithUserPattern (''git@ssh.dev.azure.com:v3/'' @ org @ ''/'' @ proj @ ''/'' @ repo @ suf) = None"
proof -
  have s: "slashes (''git@ssh.dev.azure.com:v3/'' @ org @ ''/'' @ proj @ ''/'' @ repo @ suf) = 3"
    using tail_slashes(2)[OF assms(2,3,4)]
    by (simp add: slashes_append segment_slashes[OF assms(1)] slashes_Cons slashes_Nil)
  show "match httpsPattern (''git@ssh.dev.azure.com:v3/'' @ org @ ''/'' @ proj @ ''/'' @ repo @ suf) = None"
    using s by (intro match_few_slashes) (simp add: pattern_slashes)
  show "match httpsWithUserPattern (''git@ssh.dev.azure.com:v3/'' @ org @ ''/'' @ proj @ ''/'' @ repo @ suf) = None"
    using s by (intro match_few_slashes) (simp add: pattern_slashes)
qed

lemma legacy_shape_not_https:
  assumes "url_segment org" and "url_segment proj" and "url_segment repo"
      and "git_suffix repo suf"
  shows "match httpsPattern (''https://'' @ org @ ''.visualstudio.com/'' @ proj @ ''/_git/'' @ repo @ suf) = None"
    and "match httpsWithUserPattern (''https://'' @ org @ ''.visualstudio.com/'' @ proj @ ''/_git/'' @ repo @ suf) = None"
proof -
  have s: "slashes (''https://'' @ org @ ''.visualstudio.com/'' @ proj @ ''/_git/'' @ repo @ suf) = 5"
    using tail_slashes(1)[OF assms(2,3,4)]
    by (simp add: slashes_append segment_slashes[OF assms(1)] slashes_Cons slashes_Nil)
  show "match httpsPattern (''https://'' @ org @ ''.visualstudio.com/'' @ proj @ ''/_git/'' @ repo @ suf) = None"
    using s by (intro match_few_slashes) (simp add: pattern_slashes)
  show "match httpsWithUserPattern (''https://'' @ org @ ''.visualstudio.com/'' @ proj @ ''/_git/'' @ repo @ suf) = None"
    using s by (intro match_few_slashes) (simp add: pattern_slashes)
qed

lemma legacy_shape_not_ssh:
  assumes "url_segment org" and "url_segment proj" and "url_segment repo"
      and "git_suffix repo suf"
  shows "match sshPattern (''https://'' @ org @ ''.visualstudio.com/'' @ proj @ ''/_git/'' @ repo @ suf) = None"
proof -
  let ?tail = "proj @ ''/_git/'' @ repo @ suf"
  have t: "match sshPattern ?tail = None"
    using tail_slashes(1)[OF assms(2,3,4)] by (intro match_few_slashes) (simp add: pattern_slashes)
  have h: "match sshPattern (''.visualstudio.com/'' @ ?tail) = match sshPattern ?tail"
    unfolding sshPattern_def by (rule match_Lit_skip) (simp add: upper_chars)
  have o: "match sshPattern (org @ ''.visualstudio.com/'' @ ?tail) = match sshPattern (''.visualstudio.com/'' @ ?tail)"
  proof (rule match_skip)
    fix a b assume ab: "org = a @ b" "b \<noteq> []"
    have nb: "CHR ''/'' \<notin> set b" using segment_facts(3)[OF assms(1)] ab(1) by auto
    have "\<not> ci_prefix ''git@ssh.dev.azure.com:v3/'' (b @ ''.visualstudio.com/'' @ ?tail)"
    proof
      assume p: "ci_prefix ''git@ssh.dev.azure.com:v3/'' (b @ ''.visualstudio.com/'' @ ?tail)"
      then have "lead (b @ ''.visualstudio.com/'' @ ?tail) = lead ''git@ssh.dev.azure.com:v3/''"
        by (rule ci_prefix_lead) simp
      then have "length b + 17 = 24" by (simp add: lead_append[OF nb]) (simp add: lead_def)
      then have l: "length b = 7" by simp
      have "ci_prefix (drop (length b) ''git@ssh.dev.azure.com:v3/'') (''.visualstudio.com/'' @ ?tail)"
        using p by (rule ci_prefix_drop) (simp add: l)
      then show False by (simp add: l upper_chars)
    qed
    then show "match_here sshPattern (b @ ''.visualstudio.com/'' @ ?tail) [] = None"
      by (simp add: sshPattern_def)
  qed
  have "match sshPattern (''https://'' @ org @ ''.visualstudio.com/'' @ ?tail)
          = match sshPattern (org @ ''.visualstudio.com/'' @ ?tail)"
    unfolding sshPattern_def by (rule match_Lit_skip) (simp add: upper_chars)
  then show ?thesis using o h t by simp
qed

lemma lazy_dot_plus_from_continuation:
  "lazy_dot_plus k acc s = Some r \<Longrightarrow> \<exists>g rest. k g rest = Some r"
proof (induction s arbitrary: acc)
  case Nil
  then show ?case by simp
next
  case (Cons c s)
  then show ?case by (cases "k (acc @ [c]) s") (auto split: if_splits)
qed

lemma greedy_class_plus_from_continuation:
  "greedy_class_plus k s = Some r \<Longrightarrow> \<exists>rest. k rest = Some r"
proof (induction s)
  case Nil
  then show ?case by simp
next
  case (Cons c s)
  then show ?case by (cases "greedy_class_plus k s") (auto split: if_splits)
qed

lemma match_here_captures:
  "match_here p s caps = Some r \<Longrightarrow> length r = length caps + length (filter (\<lambda>x. x = LazyGroup) p)"
proof (induction p arbitrary: s caps)
  case Nil
  then show ?case by simp
next
  case (Cons x p)
  show ?case
  proof (cases x)
    case (Lit l)
    then show ?thesis using Cons.prems Cons.IH by (auto split: if_splits)
  next
    case LazyGroup
    then obtain g rest where "match_here p rest (caps @ [g]) = Some r"
      using Cons.prems lazy_dot_plus_from_continuation[of "\<lambda>g rest. match_here p rest (caps @ [g])" "[]" s r]
      by auto
    then show ?thesis using Cons.IH LazyGroup by fastforce
  next
    case WordPlus
    then obtain rest where "match_here p rest caps = Some r"
      using Cons.prems greedy_class_plus_from_continuation[of "\<lambda>rest. match_here p rest caps" s r]
      by auto
    then show ?thesis using Cons.IH WordPlus by fastforce
  next
    case (OptLit l)
    then show ?thesis using Cons.prems Cons.IH by (auto split: if_splits option.splits)
  next
    case EndAnchor
    then show ?thesis using Cons.prems Cons.IH by (auto split: if_splits)
  qed
qed

lemma match_captures:
  "match p s = Some r \<Longrightarrow> length r = length (filter (\<lambda>x. x = LazyGroup) p)"
proof (induction s)
  case Nil
  then show ?case using match_here_captures[of p "[]" "[]" r] by simp
next
  case (Cons c s)
  then show ?case using match_here_captures[of p "c # s" "[]" r]
    by (cases "match_here p (c # s) []") auto
qed

lemma three_captures:
  assumes "length r = 3"
  shows "info_of_captures r \<noteq> None"
proof -
  obtain a b c where "r = [a, b, c]"
    using assms by (metis (no_types, lifting) length_0_conv length_Suc_conv numeral_3_eq_3)
  then show ?thesis by (simp add: info_of_captures_def)
qed

lemma pattern_captures:
  assumes "match p s = Some r"
      and "p \<in> {httpsPattern, httpsWithUserPattern, sshPattern, legacyVisualStudioPattern}"
  shows "info_of_captures r \<noteq> None"
proof -
  have "length (filter (\<lambda>x. x = LazyGroup) p) = 3"
    using assms(2)
    by (auto simp: httpsPattern_def httpsWithUserPattern_def sshPattern_def legacyVisualStudioPattern_def)
  then show ?thesis using match_captures[OF assms(1)] by (intro three_captures) simp
qed

lemma parseAzureRemote_None:
  "parseAzureRemote s = None \<longleftrightarrow>
     match httpsPattern s = None \<and> match httpsWithUserPattern s = None
     \<and> match sshPattern s = None \<and> match legacyVisualStudioPattern s = None"
  using pattern_captures[of httpsPattern s] pattern_captures[of httpsWithUserPattern s]
        pattern_captures[of sshPattern s] pattern_captures[of legacyVisualStudioPattern s]
  by (auto simp: parseAzureRemote_def split: option.splits)

section \<open>Where a pattern can match, and the strings of the four shapes\<close>

lemma ci_occurs_Cons: "ci_occurs l s \<Longrightarrow> ci_occurs l (c # s)"
  by simp

lemma ci_occurs_prefix: "ci_prefix l s \<Longrightarrow> ci_occurs l s"
  by (cases s) simp_all

lemma ci_occurs_drop: "ci_occurs l (drop n s) \<Longrightarrow> ci_occurs l s"
proof (induction s arbitrary: n)
  case Nil
  then show ?case by simp
next
  case (Cons c s)
  then show ?case by (cases n) auto
qed

lemma lazy_dot_plus_occurs:
  assumes "\<And>g rest. k g rest = Some r \<Longrightarrow> ci_occurs l rest"
      and "lazy_dot_plus k acc s = Some r"
  shows "ci_occurs l s"
  using assms(2)
proof (induction s arbitrary: acc)
  case Nil
  then show ?case by simp
next
  case (Cons c s)
  show ?case
  proof (cases "k (acc @ [c]) s")
    case None
    then have "lazy_dot_plus k (acc @ [c]) s = Some r"
      using Cons.prems by (simp split: if_splits)
    then have "ci_occurs l s" by (rule Cons.IH)
    then show ?thesis by simp
  next
    case (Some r')
    then have "r' = r" using Cons.prems by (simp split: if_splits)
    then have "ci_occurs l s" using assms(1) Some by simp
    then show ?thesis by simp
  qed
qed

lemma greedy_class_plus_occurs:
  assumes "\<And>rest. k rest = Some r \<Longrightarrow> ci_occurs l rest"
      and "greedy_class_plus k s = Some r"
  shows "ci_occurs l s"
  using assms(2)
proof (induction s)
  case Nil
  then show ?case by simp
next
  case (Cons c s)
  show ?case
  proof (cases "greedy_class_plus k s")
    case None
    then have "k s = Some r" using Cons.prems by (simp split: if_splits)
    then have "ci_occurs l s" by (rule assms(1))
    then show ?thesis by simp
  next
    case (Some r')
    then have "r' = r" using Cons.prems by (simp split: if_splits)
    then have "ci_occurs l s" using Cons.IH Some by simp
    then show ?thesis by simp
  qed
qed

lemma match_here_occurs:
  "match_here p s caps = Some r \<Longrightarrow> Lit l \<in> set p \<Longrightarrow> ci_occurs l s"
proof (induction p arbitrary: s caps)
  case Nil
  then show ?case by simp
next
  case (Cons x p)
  show ?case
  proof (cases "x = Lit l")
    case True
    then have "ci_prefix l s" using Cons.prems(1) by (simp split: if_splits)
    then show ?thesis by (rule ci_occurs_prefix)
  next
    case False
    then have in_p: "Lit l \<in> set p" using Cons.prems(2) by simp
    show ?thesis
    proof (cases x)
      case (Lit l')
      then have "match_here p (drop (length l') s) caps = Some r"
        using Cons.prems(1) by (simp split: if_splits)
      then have "ci_occurs l (drop (length l') s)" using in_p by (rule Cons.IH)
      then show ?thesis by (rule ci_occurs_drop)
    next
      case LazyGroup
      then have "lazy_dot_plus (\<lambda>g rest. match_here p rest (caps @ [g])) [] s = Some r"
        using Cons.prems(1) by simp
      then show ?thesis
        by (rule lazy_dot_plus_occurs[rotated]) (rule Cons.IH[OF _ in_p])
    next
      case WordPlus
      then have "greedy_class_plus (\<lambda>rest. match_here p rest caps) s = Some r"
        using Cons.prems(1) by simp
      then show ?thesis
        by (rule greedy_class_plus_occurs[rotated]) (rule Cons.IH[OF _ in_p])
    next
      case (OptLit l')
      show ?thesis
      proof (cases "ci_prefix l' s \<and> match_here p (drop (length l') s) caps = Some r")
        case True
        then have "ci_occurs l (drop (length l') s)" using Cons.IH in_p by blast
        then show ?thesis by (rule ci_occurs_drop)
      next
        case False
        then have "match_here p s caps = Some r"
          using Cons.prems(1) OptLit by (auto split: if_splits option.splits)
        then show ?thesis using in_p by (rule Cons.IH)
      qed
    next
      case EndAnchor
      then have "match_here p s caps = Some r" using Cons.prems(1) by (simp split: if_splits)
      then show ?thesis using in_p by (rule Cons.IH)
    qed
  qed
qed

lemma match_occurs:
  "match p s = Some r \<Longrightarrow> Lit l \<in> set p \<Longrightarrow> ci_occurs l s"
proof (induction s)
  case Nil
  then show ?case using match_here_occurs[of p "[]" "[]" r l] by simp
next
  case (Cons c s)
  show ?case
  proof (cases "match_here p (c # s) []")
    case None
    then show ?thesis using Cons by simp
  next
    case (Some r')
    then show ?thesis using match_here_occurs[OF Some Cons.prems(2)] by simp
  qed
qed

lemma no_marker_no_match:
  assumes "\<not> ci_occurs l s" and "Lit l \<in> set p"
  shows "match p s = None"
  using assms match_occurs[of p s _ l] by (cases "match p s") auto

lemma parseAzureRemote_no_marker:
  assumes "\<not> ci_occurs ''https://dev.azure.com/'' s" and "\<not> ci_occurs ''@dev.azure.com/'' s"
      and "\<not> ci_occurs ''git@ssh.dev.azure.com:v3/'' s" and "\<not> ci_occurs ''.visualstudio.com/'' s"
  shows "parseAzureRemote s = None"
proof -
  have "match httpsPattern s = None"
    using assms(1) by (rule no_marker_no_match) (simp add: httpsPattern_def)
  moreover have "match httpsWithUserPattern s = None"
    using assms(2) by (rule no_marker_no_match) (simp add: httpsWithUserPattern_def)
  moreover have "match sshPattern s = None"
    using assms(3) by (rule no_marker_no_match) (simp add: sshPattern_def)
  moreover have "match legacyVisualStudioPattern s = None"
    using assms(4) by (rule no_marker_no_match) (simp add: legacyVisualStudioPattern_def)
  ultimately show ?thesis by (simp add: parseAzureRemote_None)
qed

lemma supported_shape_slashes:
  assumes "supported_shape s"
  shows "slashes s = 6 \<or> slashes s = 3 \<or> slashes s = 5"
proof -
  obtain org proj repo user suf where
    seg: "url_segment org" "url_segment proj" "url_segment repo" "url_username user"
      "git_suffix repo suf"
    and s: "s = ''https://dev.azure.com/'' @ org @ ''/'' @ proj @ ''/_git/'' @ repo @ suf
           \<or> s = ''https://'' @ user @ ''@dev.azure.com/'' @ org @ ''/'' @ proj @ ''/_git/'' @ repo @ suf
           \<or> s = ''git@ssh.dev.azure.com:v3/'' @ org @ ''/'' @ proj @ ''/'' @ repo @ suf
           \<or> s = ''https://'' @ org @ ''.visualstudio.com/'' @ proj @ ''/_git/'' @ repo @ suf"
    using assms unfolding supported_shape_def by blast
  note t = tail_slashes[OF seg(2,3,5)]
  have 1: "slashes (''https://dev.azure.com/'' @ org @ ''/'' @ proj @ ''/_git/'' @ repo @ suf) = 6"
    using t(1) by (simp add: slashes_append segment_slashes[OF seg(1)] slashes_Cons slashes_Nil)
  have 2: "slashes (''https://'' @ user @ ''@dev.azure.com/'' @ org @ ''/'' @ proj @ ''/_git/'' @ repo @ suf) = 6"
    using t(1) by (simp add: slashes_append segment_slashes[OF seg(1)] username_slashes[OF seg(4)]
        slashes_Cons slashes_Nil)
  have 3: "slashes (''git@ssh.dev.azure.com:v3/'' @ org @ ''/'' @ proj @ ''/'' @ repo @ suf) = 3"
    using t(2) by (simp add: slashes_append segment_slashes[OF seg(1)] slashes_Cons slashes_Nil)
  have 4: "slashes (''https://'' @ org @ ''.visualstudio.com/'' @ proj @ ''/_git/'' @ repo @ suf) = 5"
    using t(1) by (simp add: slashes_append segment_slashes[OF seg(1)] slashes_Cons slashes_Nil)
  show ?thesis using s 1 2 3 4 by metis
qed

lemma supported_shape_first:
  assumes "supported_shape s"
  shows "\<exists>t. s = CHR ''h'' # t \<or> s = CHR ''g'' # t"
  using assms unfolding supported_shape_def by auto

section \<open>The claims\<close>

text \<open>
  C1, as stated: a dispatched action whose required parameters are missing raises the
  missing-parameter error before any network call. \<open>execute\<close> awaits \<open>getInstance\<close>
  before it checks a parameter, so on the first dispatch of a process the repository
  metadata request has been made when the error is raised: in the example process,
  \<open>post_comment\<close> without \<open>content\<close> fails with the missing-parameter error after one
  HTTP call.
\<close>

theorem first_dispatch_validates_after_network_counterexample:
  "fst (execute (example_params post_comment) fresh_world)
     = Inl (Error ''Missing required parameter: content'')
   \<and> fetch_log fresh_world = []
   \<and> map call_path (fetch_log (snd (execute (example_params post_comment) fresh_world)))
       = [''repositories/repo'']"
  by code_simp

text \<open>
  C1, amended: once the service instance has been resolved (the memoized promise holds
  a service), a dispatched action whose required parameters are missing raises
  \<open>Missing required parameter: <name>\<close> for the first missing one and leaves the
  process as it was: no HTTP call, no child process.
\<close>

theorem execute_missing_parameter_is_local:
  assumes "serviceInstance w = Some (Inr svc)"
      and "missing_parameters ps \<noteq> []"
  shows "execute ps w =
           (Inl (Error (''Missing required parameter: '' @ hd (missing_parameters ps))), w)"
proof -
  have g: "getInstance w = (Inr svc, w)" using assms(1) by (rule getInstance_memo)
  show ?thesis
  proof (cases "action ps")
    case list_prs
    then show ?thesis using assms(2) by (simp add: missing_parameters_def required_parameters_def)
  next
    case get_pr
    then show ?thesis using assms(2) g
      by (cases "pullRequestId ps")
         (simp_all add: execute_def missing_parameters_def required_parameters_def
            parameter_value_def is_missing_values requireNum_simps)
  next
    case get_diff
    then show ?thesis using assms(2) g
      by (cases "pullRequestId ps")
         (simp_all add: execute_def missing_parameters_def required_parameters_def
            parameter_value_def is_missing_values requireNum_simps)
  next
    case get_comments
    then show ?thesis using assms(2) g
      by (cases "pullRequestId ps")
         (simp_all add: execute_def missing_parameters_def required_parameters_def
            parameter_value_def is_missing_values requireNum_simps)
  next
    case post_comment
    then show ?thesis using assms(2) g
      by (cases "pullRequestId ps"; cases "content ps")
         (auto simp add: execute_def missing_parameters_def required_parameters_def
            parameter_value_def is_missing_values requireNum_simps requireStr_simps)
  next
    case reply_comment
    then show ?thesis using assms(2) g
      by (cases "pullRequestId ps"; cases "threadId ps"; cases "content ps")
         (auto simp add: execute_def missing_parameters_def required_parameters_def
            parameter_value_def is_missing_values requireNum_simps requireStr_simps)
  next
    case resolve_thread
    then show ?thesis using assms(2) g
      by (cases "pullRequestId ps"; cases "threadId ps")
         (auto simp add: execute_def missing_parameters_def required_parameters_def
            parameter_value_def is_missing_values requireNum_simps)
  qed
qed

theorem execute_missing_parameter_is_local_witness:
  "serviceInstance ready_world = Some (Inr example_service)
   \<and> missing_parameters (example_params post_comment) = [''content'']
   \<and> fst (execute (example_params post_comment) ready_world)
        = Inl (Error ''Missing required parameter: content'')
   \<and> fetch_log (snd (execute (example_params post_comment) ready_world)) = []"
proof -
  have h1: "serviceInstance ready_world = Some (Inr example_service)"
    by (simp add: ready_world_def)
  have m: "missing_parameters (example_params post_comment) = [''content'']" by code_simp
  then have h2: "missing_parameters (example_params post_comment) \<noteq> []" by simp
  have l: "fetch_log ready_world = []" by (simp add: ready_world_def fresh_world_def)
  show ?thesis
    using execute_missing_parameter_is_local[OF h1 h2] h1 m l by simp
qed

text \<open>
  C2: when the iteration list of a pull request is not empty, \<open>getPullRequestDiff\<close>
  requests the changes of the iteration with the greatest id, whatever the order of the
  list: after the iterations request its one further request is for
  \<open>.../iterations/<max id>/changes\<close>, and its result is the \<open>value\<close> of that response.
  For the ids 3, 1, 5 it is iteration 5.
\<close>

theorem getPullRequestDiff_highest_iteration:
  assumes "ensureRepositoryMetadata svc w = (Inr u, this, w1)"
      and "transport w1 (fetch_log w1)
             (fetch_arguments this (''repositories/'' @ repositoryId_text this @ ''/pullRequests/''
                @ showInt prId @ ''/iterations'') no_init) = Inr resp"
      and "ok resp" and "resp_status resp \<noteq> 204" and "resp_json resp = Some body"
      and "get_value body = Inr (JArr items)" and "items \<noteq> []"
      and "iteration_ids items = Some ids"
  shows "getPullRequestDiff svc prId w =
           (let (changes, w3) =
                  request_value this
                    (''repositories/'' @ repositoryId_text this @ ''/pullRequests/''
                       @ showInt prId @ ''/iterations/'' @ showInt (Max (set ids)) @ ''/changes'')
                    no_init
                    (w1\<lparr>fetch_log := fetch_log w1 @
                       [fetch_arguments this (''repositories/'' @ repositoryId_text this
                          @ ''/pullRequests/'' @ showInt prId @ ''/iterations'') no_init]\<rparr>)
            in (changes, this, w3))"
  unfolding getPullRequestDiff_def after_metadata_def
  using assms by (simp add: getLatestIterationId_max)

theorem getPullRequestDiff_highest_iteration_witness:
  "iteration_ids iterations_3_1_5 = Some [3, 1, 5]
   \<and> transport ready_world (fetch_log ready_world)
        (fetch_arguments example_service ''repositories/rid/pullRequests/7/iterations'' no_init)
       = Inr (json_response (JObj [(''value'', JArr iterations_3_1_5)]))
   \<and> map call_path (fetch_log (snd (snd (getPullRequestDiff example_service 7 ready_world))))
       = [''repositories/rid/pullRequests/7/iterations'',
          ''repositories/rid/pullRequests/7/iterations/5/changes'']
   \<and> fst (getPullRequestDiff example_service 7 ready_world)
       = Inr (JArr [JObj [(''changeType'', JStr ''edit'')]])"
proof -
  let ?resp = "json_response (JObj [(''value'', JArr iterations_3_1_5)])"
  have h1: "ensureRepositoryMetadata example_service ready_world = (Inr (), example_service, ready_world)"
    by (rule ensure_known[of _ "''rid''"]) (simp_all add: example_service_def)
  have h2: "transport ready_world (fetch_log ready_world)
             (fetch_arguments example_service (''repositories/'' @ repositoryId_text example_service
                @ ''/pullRequests/'' @ showInt 7 @ ''/iterations'') no_init) = Inr ?resp"
    by code_simp
  have h3: "ok ?resp" "resp_status ?resp \<noteq> 204"
    "resp_json ?resp = Some (JObj [(''value'', JArr iterations_3_1_5)])"
    by (simp_all add: ok_def json_response_def)
  have h4: "get_value (JObj [(''value'', JArr iterations_3_1_5)]) = Inr (JArr iterations_3_1_5)"
    by (simp add: get_value_def)
  have h5: "iterations_3_1_5 \<noteq> []" by (simp add: iterations_3_1_5_def)
  have h6: "iteration_ids iterations_3_1_5 = Some [3, 1, 5]"
    by (simp add: iterations_3_1_5_def opt_id_def)
  note t = getPullRequestDiff_highest_iteration[OF h1 h2 h3 h4 h5 h6]
  have p: "transport ready_world (fetch_log ready_world)
        (fetch_arguments example_service ''repositories/rid/pullRequests/7/iterations'' no_init) = Inr ?resp"
    by code_simp
  have v1: "map call_path (fetch_log (snd (snd (
           (let (changes, w3) =
                  request_value example_service
                    (''repositories/'' @ repositoryId_text example_service @ ''/pullRequests/''
                       @ showInt 7 @ ''/iterations/'' @ showInt (Max (set [3, 1, 5])) @ ''/changes'')
                    no_init
                    (ready_world\<lparr>fetch_log := fetch_log ready_world @
                       [fetch_arguments example_service (''repositories/'' @ repositoryId_text example_service
                          @ ''/pullRequests/'' @ showInt 7 @ ''/iterations'') no_init]\<rparr>)
            in (changes, example_service, w3))))))
       = [''repositories/rid/pullRequests/7/iterations'',
          ''repositories/rid/pullRequests/7/iterations/5/changes'']"
    by code_simp
  have v2: "fst (
           (let (changes, w3) =
                  request_value example_service
                    (''repositories/'' @ repositoryId_text example_service @ ''/pullRequests/''
                       @ showInt 7 @ ''/iterations/'' @ showInt (Max (set [3, 1, 5])) @ ''/changes'')
                    no_init
                    (ready_world\<lparr>fetch_log := fetch_log ready_world @
                       [fetch_arguments example_service (''repositories/'' @ repositoryId_text example_service
                          @ ''/pullRequests/'' @ showInt 7 @ ''/iterations'') no_init]\<rparr>)
            in (changes, example_service, w3)))
       = Inr (JArr [JObj [(''changeType'', JStr ''edit'')]])"
    by code_simp
  show ?thesis
    unfolding t using h6 p v1 v2 by simp
qed

text \<open>
  C3: when the iteration list of a pull request is empty, \<open>getPullRequestDiff\<close> returns
  the empty change list, raises nothing, and makes no request after the one for the
  iterations.
\<close>

theorem getPullRequestDiff_empty_iterations:
  assumes "ensureRepositoryMetadata svc w = (Inr u, this, w1)"
      and "transport w1 (fetch_log w1)
             (fetch_arguments this (''repositories/'' @ repositoryId_text this @ ''/pullRequests/''
                @ showInt prId @ ''/iterations'') no_init) = Inr resp"
      and "ok resp" and "resp_status resp \<noteq> 204" and "resp_json resp = Some body"
      and "get_value body = Inr (JArr [])"
  shows "getPullRequestDiff svc prId w =
           (Inr (JArr []), this,
            w1\<lparr>fetch_log := fetch_log w1 @
               [fetch_arguments this (''repositories/'' @ repositoryId_text this @ ''/pullRequests/''
                  @ showInt prId @ ''/iterations'') no_init]\<rparr>)"
  unfolding getPullRequestDiff_def after_metadata_def
  using assms by (simp add: getLatestIterationId_empty)

theorem getPullRequestDiff_empty_iterations_witness:
  "transport ready_world (fetch_log ready_world)
        (fetch_arguments example_service ''repositories/rid/pullRequests/8/iterations'' no_init)
       = Inr (json_response (JObj [(''value'', JArr [])]))
   \<and> fst (getPullRequestDiff example_service 8 ready_world) = Inr (JArr [])
   \<and> map call_path (fetch_log (snd (snd (getPullRequestDiff example_service 8 ready_world))))
       = [''repositories/rid/pullRequests/8/iterations'']"
proof -
  let ?resp = "json_response (JObj [(''value'', JArr [])])"
  have h1: "ensureRepositoryMetadata example_service ready_world = (Inr (), example_service, ready_world)"
    by (rule ensure_known[of _ "''rid''"]) (simp_all add: example_service_def)
  have h2: "transport ready_world (fetch_log ready_world)
             (fetch_arguments example_service (''repositories/'' @ repositoryId_text example_service
                @ ''/pullRequests/'' @ showInt 8 @ ''/iterations'') no_init) = Inr ?resp"
    by code_simp
  have h3: "ok ?resp" "resp_status ?resp \<noteq> 204"
    "resp_json ?resp = Some (JObj [(''value'', JArr [])])"
    by (simp_all add: ok_def json_response_def)
  have h4: "get_value (JObj [(''value'', JArr [])]) = Inr (JArr [])"
    by (simp add: get_value_def)
  note t = getPullRequestDiff_empty_iterations[OF h1 h2 h3 h4]
  have p: "transport ready_world (fetch_log ready_world)
        (fetch_arguments example_service ''repositories/rid/pullRequests/8/iterations'' no_init) = Inr ?resp"
    by code_simp
  have l: "fetch_log ready_world = []" by (simp add: ready_world_def fresh_world_def)
  have s: "showInt 8 = ''8''" by code_simp
  show ?thesis
    unfolding t using p l s by (simp add: fetch_arguments_def repositoryId_text_def example_service_def)
qed

text \<open>
  C4, as stated: a URL of one of the four shapes parses to its organization, project
  and repository, and every string that is of none of the shapes gives \<open>null\<close>. The
  second half fails: the patterns have no \<open>^\<close>, and \<open>.+?\<close> matches \<open>/\<close>, so a string
  with characters before the URL and a URL with one more path segment are parsed,
  though neither is of a shape.
\<close>

theorem no_match_half_counterexample:
  "\<not> supported_shape ''xhttps://dev.azure.com/o/p/_git/r''
   \<and> parseAzureRemote ''xhttps://dev.azure.com/o/p/_git/r''
       = Some \<lparr>organization = ''o'', project = ''p'', repository = ''r''\<rparr>
   \<and> \<not> supported_shape ''https://dev.azure.com/a/b/c/_git/d''
   \<and> parseAzureRemote ''https://dev.azure.com/a/b/c/_git/d''
       = Some \<lparr>organization = ''a'', project = ''b/c'', repository = ''d''\<rparr>"
proof -
  have 1: "\<not> supported_shape ''xhttps://dev.azure.com/o/p/_git/r''"
    using supported_shape_first[of "''xhttps://dev.azure.com/o/p/_git/r''"] by auto
  have n: "slashes ''https://dev.azure.com/a/b/c/_git/d'' = 7" by code_simp
  have 2: "\<not> supported_shape ''https://dev.azure.com/a/b/c/_git/d''"
    using supported_shape_slashes[of "''https://dev.azure.com/a/b/c/_git/d''"] n by auto
  have 3: "parseAzureRemote ''xhttps://dev.azure.com/o/p/_git/r''
       = Some \<lparr>organization = ''o'', project = ''p'', repository = ''r''\<rparr>" by code_simp
  have 4: "parseAzureRemote ''https://dev.azure.com/a/b/c/_git/d''
       = Some \<lparr>organization = ''a'', project = ''b/c'', repository = ''d''\<rparr>" by code_simp
  show ?thesis using 1 2 3 4 by blast
qed

text \<open>
  C4, amended: for every remote URL of one of the four shapes, with the \<open>.git\<close> suffix
  (in any letter case) or without it, \<open>parseAzureRemote\<close> returns exactly the
  organization, project and repository of the URL, the suffix stripped. It returns
  \<open>null\<close> exactly for the strings in which none of the four patterns finds a match at
  any position; in particular for every string that contains, letter case ignored,
  none of \<open>https://dev.azure.com/\<close>, \<open>@dev.azure.com/\<close>, \<open>git@ssh.dev.azure.com:v3/\<close>
  and \<open>.visualstudio.com/\<close>.
\<close>

theorem parseAzureRemote_shapes:
  assumes "url_segment org" and "url_segment proj" and "url_segment repo"
      and "url_username user"
      and "git_suffix repo suf"
  shows "parseAzureRemote (''https://dev.azure.com/'' @ org @ ''/'' @ proj @ ''/_git/'' @ repo @ suf)
           = Some \<lparr>organization = org, project = proj, repository = repo\<rparr>
       \<and> parseAzureRemote (''https://'' @ user @ ''@dev.azure.com/'' @ org @ ''/'' @ proj @ ''/_git/'' @ repo @ suf)
           = Some \<lparr>organization = org, project = proj, repository = repo\<rparr>
       \<and> parseAzureRemote (''git@ssh.dev.azure.com:v3/'' @ org @ ''/'' @ proj @ ''/'' @ repo @ suf)
           = Some \<lparr>organization = org, project = proj, repository = repo\<rparr>
       \<and> parseAzureRemote (''https://'' @ org @ ''.visualstudio.com/'' @ proj @ ''/_git/'' @ repo @ suf)
           = Some \<lparr>organization = org, project = proj, repository = repo\<rparr>
       \<and> (parseAzureRemote s = None \<longleftrightarrow>
            match httpsPattern s = None \<and> match httpsWithUserPattern s = None
            \<and> match sshPattern s = None \<and> match legacyVisualStudioPattern s = None)
       \<and> (\<not> ci_occurs ''https://dev.azure.com/'' s \<and> \<not> ci_occurs ''@dev.azure.com/'' s
            \<and> \<not> ci_occurs ''git@ssh.dev.azure.com:v3/'' s \<and> \<not> ci_occurs ''.visualstudio.com/'' s
            \<longrightarrow> parseAzureRemote s = None)"
proof -
  note seg = assms(1,2,3,5)
  have 1: "parseAzureRemote (''https://dev.azure.com/'' @ org @ ''/'' @ proj @ ''/_git/'' @ repo @ suf)
           = Some \<lparr>organization = org, project = proj, repository = repo\<rparr>"
    unfolding parseAzureRemote_def first_candidate.simps https_shape_matches[OF seg]
    by (simp add: info_of_captures_def)
  have 2: "parseAzureRemote (''https://'' @ user @ ''@dev.azure.com/'' @ org @ ''/'' @ proj @ ''/_git/'' @ repo @ suf)
           = Some \<lparr>organization = org, project = proj, repository = repo\<rparr>"
    unfolding parseAzureRemote_def first_candidate.simps
      user_shape_not_https[OF assms(4) seg] user_shape_matches[OF assms(4) seg]
    by (simp add: info_of_captures_def)
  have 3: "parseAzureRemote (''git@ssh.dev.azure.com:v3/'' @ org @ ''/'' @ proj @ ''/'' @ repo @ suf)
           = Some \<lparr>organization = org, project = proj, repository = repo\<rparr>"
    unfolding parseAzureRemote_def first_candidate.simps
      ssh_shape_not_https[OF seg] ssh_shape_matches[OF seg]
    by (simp add: info_of_captures_def)
  have 4: "parseAzureRemote (''https://'' @ org @ ''.visualstudio.com/'' @ proj @ ''/_git/'' @ repo @ suf)
           = Some \<lparr>organization = org, project = proj, repository = repo\<rparr>"
    unfolding parseAzureRemote_def first_candidate.simps
      legacy_shape_not_https[OF seg] legacy_shape_not_ssh[OF seg] legacy_shape_matches[OF seg]
    by (simp add: info_of_captures_def)
  show ?thesis using 1 2 3 4 parseAzureRemote_None[of s] parseAzureRemote_no_marker[of s] by blast
qed

theorem parseAzureRemote_shapes_witness:
  "url_segment ''org'' \<and> url_segment ''proj'' \<and> url_segment ''repo'' \<and> url_username ''user''
   \<and> git_suffix ''repo'' ''.git'' \<and> git_suffix ''repo'' ''.GIT'' \<and> git_suffix ''repo'' []
   \<and> parseAzureRemote ''https://dev.azure.com/org/proj/_git/repo.git''
       = Some \<lparr>organization = ''org'', project = ''proj'', repository = ''repo''\<rparr>
   \<and> parseAzureRemote ''https://user@dev.azure.com/org/proj/_git/repo.git''
       = Some \<lparr>organization = ''org'', project = ''proj'', repository = ''repo''\<rparr>
   \<and> parseAzureRemote ''git@ssh.dev.azure.com:v3/org/proj/repo.git''
       = Some \<lparr>organization = ''org'', project = ''proj'', repository = ''repo''\<rparr>
   \<and> parseAzureRemote ''https://org.visualstudio.com/proj/_git/repo.git''
       = Some \<lparr>organization = ''org'', project = ''proj'', repository = ''repo''\<rparr>
   \<and> parseAzureRemote ''https://dev.azure.com/org/proj/_git/repo.GIT''
       = Some \<lparr>organization = ''org'', project = ''proj'', repository = ''repo''\<rparr>
   \<and> parseAzureRemote ''git@ssh.dev.azure.com:v3/org/proj/repo''
       = Some \<lparr>organization = ''org'', project = ''proj'', repository = ''repo''\<rparr>
   \<and> \<not> ci_occurs ''https://dev.azure.com/'' ''https://github.com/org/repo.git''
   \<and> \<not> ci_occurs ''@dev.azure.com/'' ''https://github.com/org/repo.git''
   \<and> \<not> ci_occurs ''git@ssh.dev.azure.com:v3/'' ''https://github.com/org/repo.git''
   \<and> \<not> ci_occurs ''.visualstudio.com/'' ''https://github.com/org/repo.git''
   \<and> parseAzureRemote ''https://github.com/org/repo.git'' = None"
proof -
  have h: "url_segment ''org''" "url_segment ''proj''" "url_segment ''repo''" "url_username ''user''"
    by code_simp+
  have g: "git_suffix ''repo'' ''.git''" "git_suffix ''repo'' ''.GIT''" "git_suffix ''repo'' []"
    by code_simp+
  have n: "\<not> ci_occurs ''https://dev.azure.com/'' ''https://github.com/org/repo.git''"
    "\<not> ci_occurs ''@dev.azure.com/'' ''https://github.com/org/repo.git''"
    "\<not> ci_occurs ''git@ssh.dev.azure.com:v3/'' ''https://github.com/org/repo.git''"
    "\<not> ci_occurs ''.visualstudio.com/'' ''https://github.com/org/repo.git''"
    by code_simp+
  note a = parseAzureRemote_shapes[OF h g(1), of "''https://github.com/org/repo.git''"]
  note b = parseAzureRemote_shapes[OF h g(2), of "''https://github.com/org/repo.git''"]
  note c = parseAzureRemote_shapes[OF h g(3), of "''https://github.com/org/repo.git''"]
  have a1: "parseAzureRemote ''https://dev.azure.com/org/proj/_git/repo.git''
       = Some \<lparr>organization = ''org'', project = ''proj'', repository = ''repo''\<rparr>"
    using conjunct1[OF a] by simp
  have a2: "parseAzureRemote ''https://user@dev.azure.com/org/proj/_git/repo.git''
       = Some \<lparr>organization = ''org'', project = ''proj'', repository = ''repo''\<rparr>"
    using conjunct1[OF conjunct2[OF a]] by simp
  have a3: "parseAzureRemote ''git@ssh.dev.azure.com:v3/org/proj/repo.git''
       = Some \<lparr>organization = ''org'', project = ''proj'', repository = ''repo''\<rparr>"
    using conjunct1[OF conjunct2[OF conjunct2[OF a]]] by simp
  have a4: "parseAzureRemote ''https://org.visualstudio.com/proj/_git/repo.git''
       = Some \<lparr>organization = ''org'', project = ''proj'', repository = ''repo''\<rparr>"
    using conjunct1[OF conjunct2[OF conjunct2[OF conjunct2[OF a]]]] by simp
  have a5: "parseAzureRemote ''https://github.com/org/repo.git'' = None"
    using conjunct2[OF conjunct2[OF conjunct2[OF conjunct2[OF conjunct2[OF a]]]]] n by blast
  have b1: "parseAzureRemote ''https://dev.azure.com/org/proj/_git/repo.GIT''
       = Some \<lparr>organization = ''org'', project = ''proj'', repository = ''repo''\<rparr>"
    using conjunct1[OF b] by simp
  have c3: "parseAzureRemote ''git@ssh.dev.azure.com:v3/org/proj/repo''
       = Some \<lparr>organization = ''org'', project = ''proj'', repository = ''repo''\<rparr>"
    using conjunct1[OF conjunct2[OF conjunct2[OF c]]] by simp
  show ?thesis using h g n a1 a2 a3 a4 a5 b1 c3 by blast
qed

text \<open>
  C5: a response whose status is not 2xx makes \<open>request\<close> raise an error whose message
  carries the status code, the status text and the body text as they are, after a
  single call of \<open>fetch\<close> (no retry). A 404 answer to \<open>get_pr\<close> gives a message
  containing \<open>404\<close>.
\<close>

theorem request_non_2xx_raises:
  assumes "transport w (fetch_log w) (fetch_arguments svc path init) = Inr resp"
      and "resp_status resp < 200 \<or> 299 < resp_status resp"
  shows "request svc path init w =
           (Inl (Error (''Azure DevOps request failed ('' @ showNat (resp_status resp) @ '' ''
                          @ resp_statusText resp @ ''): '' @ resp_text resp)),
            w\<lparr>fetch_log := fetch_log w @ [fetch_arguments svc path init]\<rparr>)"
proof -
  have "\<not> ok resp" using assms(2) by (auto simp: ok_def)
  then show ?thesis using assms(1) by (rule request_error_response[rotated])
qed

theorem request_non_2xx_raises_witness:
  "transport ready_world (fetch_log ready_world)
     (fetch_arguments example_service ''repositories/rid/pullRequests/9'' no_init)
     = Inr \<lparr>resp_status = 404, resp_statusText = ''Not Found'', resp_text = ''no such item'', resp_json = None\<rparr>
   \<and> fst (request example_service ''repositories/rid/pullRequests/9'' no_init ready_world)
       = Inl (Error ''Azure DevOps request failed (404 Not Found): no such item'')
   \<and> length (fetch_log (snd (request example_service ''repositories/rid/pullRequests/9'' no_init ready_world))) = 1
   \<and> fst (execute ((example_params get_pr)\<lparr>pullRequestId := Some 9\<rparr>) ready_world)
       = Inl (Error ''Azure DevOps request failed (404 Not Found): no such item'')"
proof -
  let ?resp = "\<lparr>resp_status = 404, resp_statusText = ''Not Found'', resp_text = ''no such item'', resp_json = None\<rparr>"
  have h: "transport ready_world (fetch_log ready_world)
     (fetch_arguments example_service ''repositories/rid/pullRequests/9'' no_init) = Inr ?resp"
    by code_simp
  have s: "showNat 404 = ''404''" by code_simp
  have l: "fetch_log ready_world = []" by code_simp
  have e: "fst (execute ((example_params get_pr)\<lparr>pullRequestId := Some 9\<rparr>) ready_world)
       = Inl (Error ''Azure DevOps request failed (404 Not Found): no such item'')" by code_simp
  show ?thesis
    using request_non_2xx_raises[OF h] h s l e by simp
qed

text \<open>
  C6: a response with status 204 makes \<open>request\<close> return \<open>undefined\<close>; the body is
  not parsed, so the result is the same when the body is no JSON at all. A 204 answer
  to \<open>resolve_thread\<close> resolves to \<open>undefined\<close>.
\<close>

theorem request_204_is_undefined:
  assumes "transport w (fetch_log w) (fetch_arguments svc path init) = Inr resp"
      and "resp_status resp = 204"
  shows "request svc path init w =
           (Inr JUndefined, w\<lparr>fetch_log := fetch_log w @ [fetch_arguments svc path init]\<rparr>)"
  using assms by (rule request_no_content)

theorem request_204_is_undefined_witness:
  "transport ready_world (fetch_log ready_world)
     (fetch_arguments example_service ''repositories/rid/pullRequests/7/threads/2''
        (json_init ''PATCH'' (JObj [(''status'', JStr ''closed'')])))
     = Inr \<lparr>resp_status = 204, resp_statusText = ''No Content'', resp_text = [], resp_json = None\<rparr>
   \<and> fst (request example_service ''repositories/rid/pullRequests/7/threads/2''
        (json_init ''PATCH'' (JObj [(''status'', JStr ''closed'')])) ready_world) = Inr JUndefined
   \<and> fst (execute (example_params resolve_thread) ready_world) = Inr JUndefined"
proof -
  let ?resp = "\<lparr>resp_status = 204, resp_statusText = ''No Content'', resp_text = [], resp_json = None\<rparr>"
  have h: "transport ready_world (fetch_log ready_world)
     (fetch_arguments example_service ''repositories/rid/pullRequests/7/threads/2''
        (json_init ''PATCH'' (JObj [(''status'', JStr ''closed'')]))) = Inr ?resp"
    by code_simp
  have e: "fst (execute (example_params resolve_thread) ready_world) = Inr JUndefined" by code_simp
  show ?thesis
    using request_204_is_undefined[OF h] h e by simp
qed

text \<open>
  C7: a dispatched \<open>resolve_thread\<close> whose \<open>status\<close> is absent calls
  \<open>updateThreadStatus\<close> with \<open>closed\<close>, and the payload of the \<open>PATCH\<close> request sent
  is \<open>{status: "closed"}\<close>.
\<close>

theorem resolve_thread_defaults_to_closed:
  assumes "getInstance w = (Inr service, w1)"
      and "action ps = resolve_thread"
      and "pullRequestId ps = Some prId" and "threadId ps = Some tId"
      and "status ps = None"
  shows "execute ps w = on_service (updateThreadStatus service prId tId ''closed'' w1)
         \<and> (repositoryId service = Some rid \<and> rid \<noteq> [] \<longrightarrow>
              fetch_log (snd (execute ps w)) =
                fetch_log w1 @
                  [fetch_arguments service
                     (''repositories/'' @ rid @ ''/pullRequests/'' @ showInt prId @ ''/threads/'' @ showInt tId)
                     (json_init ''PATCH'' (JObj [(''status'', JStr ''closed'')]))])"
proof -
  have e: "execute ps w = on_service (updateThreadStatus service prId tId ''closed'' w1)"
    using assms by (simp add: execute_def requireNum_simps)
  have "fetch_log (snd (on_service (updateThreadStatus service prId tId ''closed'' w1))) =
          fetch_log w1 @
            [fetch_arguments service
               (''repositories/'' @ rid @ ''/pullRequests/'' @ showInt prId @ ''/threads/'' @ showInt tId)
               (json_init ''PATCH'' (JObj [(''status'', JStr ''closed'')]))]"
    if r: "repositoryId service = Some rid" "rid \<noteq> []"
    using r
    by (simp add: updateThreadStatus_def after_metadata_known[OF r] on_service_def
          request_log repositoryId_text_def split: prod.splits)
  then show ?thesis using e by simp
qed

theorem resolve_thread_defaults_to_closed_witness:
  "getInstance ready_world = (Inr example_service, ready_world)
   \<and> map call_body (fetch_log (snd (execute (example_params resolve_thread) ready_world)))
       = [Some (JObj [(''status'', JStr ''closed'')])]
   \<and> map call_method (fetch_log (snd (execute (example_params resolve_thread) ready_world)))
       = [Some ''PATCH'']"
proof -
  have h1: "getInstance ready_world = (Inr example_service, ready_world)"
    by (simp add: getInstance_def ready_world_def)
  have h2: "action (example_params resolve_thread) = resolve_thread"
    "pullRequestId (example_params resolve_thread) = Some 7"
    "threadId (example_params resolve_thread) = Some 2"
    "status (example_params resolve_thread) = None"
    by (simp_all add: example_params_def)
  have r: "repositoryId example_service = Some ''rid''" by (simp add: example_service_def)
  have l: "fetch_log ready_world = []" by (simp add: ready_world_def fresh_world_def)
  have t: "fetch_log (snd (execute (example_params resolve_thread) ready_world)) =
             [fetch_arguments example_service
                (''repositories/'' @ ''rid'' @ ''/pullRequests/'' @ showInt 7 @ ''/threads/'' @ showInt 2)
                (json_init ''PATCH'' (JObj [(''status'', JStr ''closed'')]))]"
    using conjunct2[OF resolve_thread_defaults_to_closed[OF h1 h2, of "''rid''"]] r l by simp
  show ?thesis
    using h1 by (simp add: t fetch_arguments_def json_init_def)
qed

text \<open>
  C8: when the token variable is absent, empty or blank, initialization fails with
  \<open>ADO_PAT environment variable is not set\<close> and the process is unchanged: the git
  remote has not been read and no HTTP request has been made.
\<close>

theorem initialize_without_token_fails_first:
  assumes "env_ADO_PAT w = None \<or> (\<exists>t. env_ADO_PAT w = Some t \<and> trim t = [])"
  shows "initialize w = (Inl (Error ''ADO_PAT environment variable is not set''), w)
         \<and> (serviceInstance w = None \<longrightarrow>
              getInstance w =
                (Inl (Error ''ADO_PAT environment variable is not set''),
                 w\<lparr>serviceInstance := Some (Inl (Error ''ADO_PAT environment variable is not set''))\<rparr>))"
proof -
  have i: "initialize w = (Inl (Error ''ADO_PAT environment variable is not set''), w)"
    using assms by (intro initialize_no_token) (auto split: option.splits)
  then show ?thesis by (simp add: getInstance_def)
qed

theorem initialize_without_token_fails_first_witness:
  "(env_ADO_PAT (fresh_world\<lparr>env_ADO_PAT := Some '' ''\<rparr>) = None
      \<or> (\<exists>t. env_ADO_PAT (fresh_world\<lparr>env_ADO_PAT := Some '' ''\<rparr>) = Some t \<and> trim t = []))
   \<and> fst (initialize (fresh_world\<lparr>env_ADO_PAT := Some '' ''\<rparr>))
       = Inl (Error ''ADO_PAT environment variable is not set'')
   \<and> exec_count (snd (initialize (fresh_world\<lparr>env_ADO_PAT := Some '' ''\<rparr>))) = 0
   \<and> fetch_log (snd (initialize (fresh_world\<lparr>env_ADO_PAT := Some '' ''\<rparr>))) = []"
proof -
  have t: "trim '' '' = []" by code_simp
  have h: "env_ADO_PAT (fresh_world\<lparr>env_ADO_PAT := Some '' ''\<rparr>) = None
      \<or> (\<exists>t. env_ADO_PAT (fresh_world\<lparr>env_ADO_PAT := Some '' ''\<rparr>) = Some t \<and> trim t = [])"
    using t by simp
  have c: "exec_count fresh_world = 0" "fetch_log fresh_world = []" by (simp_all add: fresh_world_def)
  show ?thesis
    using initialize_without_token_fails_first[OF h] h c by simp
qed

text \<open>
  C9: initialization is memoized for the process. However often \<open>getInstance\<close> is
  called, every caller receives what the first call received (the same service, or the
  same failure), the first call reads the git remote and requests the repository
  metadata at most once, and no later call of \<open>getInstance\<close> or of the dispatcher, in
  any order, reads the git remote again or changes what \<open>getInstance\<close> returns.
\<close>

theorem getInstance_memoized_process_wide:
  assumes "serviceInstance w = None"
  shows "getInstance_calls (Suc n) w = (replicate (Suc n) (fst (getInstance w)), snd (getInstance w))
   \<and> exec_count (snd (getInstance w)) \<le> exec_count w + 1
   \<and> length (fetch_log (snd (getInstance w))) \<le> length (fetch_log w) + 1
   \<and> fst (getInstance (run_calls cs (snd (getInstance w)))) = fst (getInstance w)
   \<and> exec_count (run_calls cs (snd (getInstance w))) = exec_count (snd (getInstance w))"
proof -
  have "getInstance_calls n (snd (getInstance w)) = (replicate n (fst (getInstance w)), snd (getInstance w))"
    by (rule getInstance_calls_memo) (rule getInstance_stores)
  then have a: "getInstance_calls (Suc n) w = (replicate (Suc n) (fst (getInstance w)), snd (getInstance w))"
    by (cases "getInstance w") simp
  have s: "settled (snd (getInstance w))" using assms by (rule getInstance_settles)
  have k: "serviceInstance (run_calls cs (snd (getInstance w))) = Some (fst (getInstance w))"
    "exec_count (run_calls cs (snd (getInstance w))) = exec_count (snd (getInstance w))"
    using run_calls_settled[OF s, of cs] getInstance_stores[of w] by simp_all
  have b: "fst (getInstance (run_calls cs (snd (getInstance w)))) = fst (getInstance w)"
    using getInstance_memo[OF k(1)] by simp
  show ?thesis using a b k(2) getInstance_cost[of w] by simp
qed

theorem getInstance_memoized_process_wide_witness:
  "serviceInstance fresh_world = None
   \<and> fst (getInstance_calls 3 fresh_world) = replicate 3 (Inr example_service)
   \<and> exec_count (snd (getInstance_calls 3 fresh_world)) = 1
   \<and> map call_path (fetch_log (snd (getInstance_calls 3 fresh_world))) = [''repositories/repo'']"
proof -
  have h: "serviceInstance fresh_world = None" by (simp add: fresh_world_def)
  have g: "fst (getInstance fresh_world) = Inr example_service" by code_simp
  have e: "exec_count (snd (getInstance fresh_world)) = 1" by code_simp
  have l: "map call_path (fetch_log (snd (getInstance fresh_world))) = [''repositories/repo'']" by code_simp
  have n: "(3::nat) = Suc 2" by simp
  show ?thesis
    using conjunct1[OF getInstance_memoized_process_wide[OF h, of 2 "[]"]] h g e l
    unfolding n by simp
qed

text \<open>
  C10: \<open>requireParam\<close> rejects exactly \<open>undefined\<close>, \<open>null\<close> and the empty string and
  returns every other value unchanged; the integer 0 as \<open>pullRequestId\<close> or \<open>threadId\<close>
  is accepted and the action is dispatched to the service.
\<close>

theorem requireParam_rejects_exactly:
  "requireParam v name =
     (if v = JUndefined \<or> v = JNull \<or> v = JStr []
      then Inl (Error (''Missing required parameter: '' @ name)) else Inr v)
   \<and> requireParam (JNum 0) name = Inr (JNum 0)
   \<and> execute \<lparr>action = get_pr, pullRequestId = Some 0, threadId = t, content = c, status = s,
               threadContext = tc\<rparr> (w\<lparr>serviceInstance := Some (Inr svc)\<rparr>)
       = on_service (getPullRequest svc 0 (w\<lparr>serviceInstance := Some (Inr svc)\<rparr>))
   \<and> execute \<lparr>action = resolve_thread, pullRequestId = Some 0, threadId = Some 0, content = c,
               status = Some st, threadContext = tc\<rparr> (w\<lparr>serviceInstance := Some (Inr svc)\<rparr>)
       = on_service (updateThreadStatus svc 0 0 st (w\<lparr>serviceInstance := Some (Inr svc)\<rparr>))
   \<and> map call_path (fetch_log (snd (execute ((example_params get_pr)\<lparr>pullRequestId := Some 0\<rparr>) ready_world)))
       = [''repositories/rid/pullRequests/0'']"
proof -
  have a: "requireParam v name =
     (if v = JUndefined \<or> v = JNull \<or> v = JStr []
      then Inl (Error (''Missing required parameter: '' @ name)) else Inr v)"
    by (cases v) (simp_all add: requireParam_def)
  have b: "requireParam (JNum 0) name = Inr (JNum 0)" by (simp add: requireParam_def)
  have g: "getInstance (w\<lparr>serviceInstance := Some (Inr svc)\<rparr>) = (Inr svc, w\<lparr>serviceInstance := Some (Inr svc)\<rparr>)"
    by (simp add: getInstance_def)
  have d: "map call_path (fetch_log (snd (execute ((example_params get_pr)\<lparr>pullRequestId := Some 0\<rparr>) ready_world)))
       = [''repositories/rid/pullRequests/0'']"
    by code_simp
  show ?thesis using a b g d by (simp add: execute_def requireNum_simps)
qed

end
